theory Spec2Isabelle
  imports Complex_Main "HOL-Library.Multiset"
begin

section \<open>Strings\<close>

text \<open>
  A JavaScript string is modelled as a \<^typ>\<open>string\<close>, one \<^typ>\<open>char\<close> per code unit, so the
  model covers the strings whose code units are below 256 (the Latin-1 range). The
  helpers below are the String.prototype methods the validator module calls, restricted
  to that range.
\<close>

text \<open>\<^verbatim>\<open>String.prototype.trim\<close> removes white space and line terminators at both ends; below
  256 these are TAB, LF, VT, FF, CR, SPACE and NBSP.\<close>

definition isWhiteSpace :: "char \<Rightarrow> bool" where
  "isWhiteSpace c = (c \<in> set [CHR 0x09, CHR 0x0A, CHR 0x0B, CHR 0x0C, CHR 0x0D, CHR 0x20, CHR 0xA0])"

definition trim :: "string \<Rightarrow> string" where
  "trim s = rev (dropWhile isWhiteSpace (rev (dropWhile isWhiteSpace s)))"

text \<open>\<^verbatim>\<open>String.prototype.toLowerCase\<close>: below 256 the upper-case letters are A-Z and
  U+00C0..U+00DE without U+00D7, each 32 below its lower-case form.\<close>

definition toLowerChar :: "char \<Rightarrow> char" where
  "toLowerChar c =
     (let n = (of_char c :: nat)
      in if (65 \<le> n \<and> n \<le> 90) \<or> (192 \<le> n \<and> n \<le> 222 \<and> n \<noteq> 215)
         then char_of (n + 32) else c)"

definition toLowerCase :: "string \<Rightarrow> string" where
  "toLowerCase s = map toLowerChar s"

text \<open>\<^verbatim>\<open>s.split(sep)\<close> for a separator that matches one code unit: the pieces between the
  separators, the empty string giving one empty piece.\<close>

fun split_str :: "(char \<Rightarrow> bool) \<Rightarrow> string \<Rightarrow> string list" where
  "split_str sep [] = [[]]"
| "split_str sep (c # cs) =
     (if sep c then [] # split_str sep cs
      else (case split_str sep cs of
              [] \<Rightarrow> [[c]]
            | piece # pieces \<Rightarrow> (c # piece) # pieces))"

definition includes_char :: "string \<Rightarrow> char \<Rightarrow> bool" where
  "includes_char s c = (c \<in> set s)"

definition endsWith :: "string \<Rightarrow> string \<Rightarrow> bool" where
  "endsWith s t = (length t \<le> length s \<and> drop (length s - length t) s = t)"

section \<open>Types (types/email.ts)\<close>

datatype Status = Valid | RetryLater | DoNotContact

datatype Confidence = High | Medium | Low

text \<open>The status and the confidence are unions of string literals, modelled as datatypes;
  the optional fields are options. The numbers of a result and of the options (counters,
  attempts, delays in milliseconds) hold integers and are modelled as \<^typ>\<open>int\<close>.\<close>

record Details =
  format :: bool
  domain :: bool
  disposable :: bool
  mxRecords :: bool
  smtp :: bool
  spamTrap :: bool
  corporate :: bool
  blacklisted :: bool
  retryCount :: int
  verificationSteps :: "string list"

record EmailValidationResult =
  email :: string
  status :: Status
  confidence :: Confidence
  reason :: "string option"
  timestamp :: string
  retryAfter :: "int option"
  details :: Details

record RetryStrategy =
  maxAttempts :: int
  backoffDelay :: int
  timeout :: int

record ValidationOptions =
  enableRetries :: bool
  retryStrategy :: RetryStrategy
  validateSMTP :: bool
  strictMode :: bool

text \<open>What a function of the module throws: an \<^verbatim>\<open>Error\<close> with its message, or the
  \<^verbatim>\<open>TypeError\<close> raised when a method is called on \<^verbatim>\<open>undefined\<close> or the validator library is
  handed a value that is not a string.\<close>

datatype js_error = Error string | TypeError

section \<open>Constants (utils/emailValidator.ts)\<close>

definition CHUNK_SIZE :: nat where
  "CHUNK_SIZE = 2000"

definition MAX_FILE_SIZE :: nat where
  "MAX_FILE_SIZE = 10 * 1024 * 1024"

definition MAX_EMAILS :: nat where
  "MAX_EMAILS = 40000"

definition DEFAULT_RETRY_STRATEGY :: RetryStrategy where
  "DEFAULT_RETRY_STRATEGY = \<lparr>maxAttempts = 3, backoffDelay = 2000, timeout = 30000\<rparr>"

definition DEFAULT_OPTIONS :: ValidationOptions where
  "DEFAULT_OPTIONS =
     \<lparr>enableRetries = True, retryStrategy = DEFAULT_RETRY_STRATEGY,
      validateSMTP = True, strictMode = False\<rparr>"

definition ENTERPRISE_DOMAINS :: "string list" where
  "ENTERPRISE_DOMAINS =
     [''microsoft.com'', ''apple.com'', ''google.com'', ''amazon.com'',
      ''facebook.com'', ''oracle.com'', ''ibm.com'', ''intel.com'',
      ''cisco.com'', ''hp.com'', ''dell.com'', ''samsung.com'',
      ''sony.com'', ''toyota.com'', ''honda.com'', ''bmw.com'',
      ''boeing.com'', ''ge.com'', ''siemens.com'', ''philips.com'']"

definition TRUSTED_TLDS :: "string list" where
  "TRUSTED_TLDS =
     [''edu'', ''gov'', ''mil'', ''ac.uk'', ''gov.uk'', ''edu.au'',
      ''gov.au'', ''ac.jp'', ''go.jp'', ''edu.cn'', ''gov.cn'']"

section \<open>The address parser\<close>

record File =
  file_size :: nat
  file_type :: string
  file_text :: string

definition validateFileSize :: "File \<Rightarrow> bool" where
  "validateFileSize file = (file_size file \<le> MAX_FILE_SIZE)"

definition validateFileType :: "File \<Rightarrow> bool" where
  "validateFileType file = (file_type file = ''text/csv'' \<or> file_type file = ''text/plain'')"

definition isQuote :: "char \<Rightarrow> bool" where
  "isQuote c = (c = CHR 0x27 \<or> c = CHR 0x22)"

definition parseEmailFile :: "File \<Rightarrow> js_error + string list" where
  "parseEmailFile file =
     (let text = file_text file;
          emails =
            take MAX_EMAILS
              (map (\<lambda>e. filter (\<lambda>c. \<not> isQuote c) e)
                 (filter (\<lambda>e. e \<noteq> [] \<and> includes_char e CHR ''@'')
                    (map (\<lambda>e. trim e)
                       (split_str (\<lambda>c. c = CHR 0x0A \<or> c = CHR '','') text))))
      in if length emails = 0 then Inl (Error ''No valid emails found in file'')
         else Inr emails)"

text \<open>The parser in the words of the specification, step by step: the tokens of a text are
  what is left after splitting on newline or comma, trimming, discarding the empty tokens
  and those without an at sign, and stripping the quote characters.\<close>

definition spec_split :: "string \<Rightarrow> string list" where
  "spec_split text = split_str (\<lambda>c. c \<in> {CHR 0x0A, CHR '',''}) text"

definition spec_discard :: "string list \<Rightarrow> string list" where
  "spec_discard ts = filter (\<lambda>t. CHR ''@'' \<in> set t) (filter (\<lambda>t. t \<noteq> []) ts)"

definition spec_strip :: "string \<Rightarrow> string" where
  "spec_strip t = filter (\<lambda>c. c \<notin> {CHR 0x27, CHR 0x22}) t"

definition spec_tokens :: "string \<Rightarrow> string list" where
  "spec_tokens text = map spec_strip (spec_discard (map trim (spec_split text)))"

section \<open>The reputation classifier\<close>

definition isEnterpriseDomain :: "string \<Rightarrow> bool" where
  "isEnterpriseDomain domn =
     (toLowerCase domn \<in> set ENTERPRISE_DOMAINS \<or>
      list_ex (\<lambda>tld. endsWith (toLowerCase domn) (''.'' @ tld)) TRUSTED_TLDS)"

text \<open>The three patterns of \<^verbatim>\<open>detectSpamTrapPattern\<close>, and whether one of them matches
  (\<^verbatim>\<open>patterns.some(pattern => pattern.test(email))\<close>). With the \<^verbatim>\<open>i\<close> flag an ASCII letter of a
  pattern matches that letter in either case and nothing else, so a match is tested on the
  lower-cased text. \<^verbatim>\<open>/^[a-z0-9]{20,}@/i\<close> matches when the longest run of letters and digits
  at the start has at least 20 characters and is followed by an at sign.\<close>

definition startsWith_ci :: "string \<Rightarrow> string \<Rightarrow> bool" where
  "startsWith_ci s pat = (toLowerCase (take (length pat) s) = pat)"

definition contains_ci :: "string \<Rightarrow> string \<Rightarrow> bool" where
  "contains_ci s pat = list_ex (\<lambda>i. startsWith_ci (drop i s) pat) [0..<Suc (length s)]"

definition isAlnum :: "char \<Rightarrow> bool" where
  "isAlnum c =
     (let n = (of_char c :: nat)
      in (48 \<le> n \<and> n \<le> 57) \<or> (65 \<le> n \<and> n \<le> 90) \<or> (97 \<le> n \<and> n \<le> 122))"

definition spamTrapPatterns :: "string \<Rightarrow> bool" where
  "spamTrapPatterns addr =
     (list_ex (\<lambda>p. startsWith_ci addr (p @ ''@'')) [''abuse'', ''postmaster'', ''spam'', ''noreply''] \<or>
      (20 \<le> length (takeWhile isAlnum addr) \<and> take 1 (dropWhile isAlnum addr) = ''@'') \<or>
      list_ex (\<lambda>p. contains_ci addr p) [''spam'', ''trap'', ''honeypot''])"

section \<open>Effects\<close>

text \<open>
  The effects of one address pipeline are threaded through a \<open>world\<close>: how many values
  \<^verbatim>\<open>Math.random()\<close> has handed out, how often each probe and the spam-trap detector were
  invoked, and the delays handed to \<^verbatim>\<open>setTimeout\<close>, in order. The environment of a pipeline is the sequence of values
  \<^verbatim>\<open>Math.random()\<close> returns to it (the \<open>n\<close>-th call returns \<open>random env n\<close>, a real number
  standing for the double) and the string \<^verbatim>\<open>new Date().toISOString()\<close> returns when the
  result is built.
\<close>

record world =
  random_calls :: nat
  mx_calls :: nat
  smtp_calls :: nat
  spamtrap_calls :: nat
  timeouts :: "int list"

definition world0 :: world where
  "world0 = \<lparr>random_calls = 0, mx_calls = 0, smtp_calls = 0, spamtrap_calls = 0, timeouts = []\<rparr>"

record env =
  random :: "nat \<Rightarrow> real"
  now :: string

definition Math_random :: "env \<Rightarrow> world \<Rightarrow> real \<times> world" where
  "Math_random e w = (random e (random_calls w), w\<lparr>random_calls := random_calls w + 1\<rparr>)"

definition setTimeout :: "int \<Rightarrow> world \<Rightarrow> world" where
  "setTimeout delay w = w\<lparr>timeouts := timeouts w @ [delay]\<rparr>"

text \<open>An invocation of \<^verbatim>\<open>detectSpamTrapPattern\<close> is counted, like the invocations of the
  probes.\<close>

definition detectSpamTrapPattern :: "string \<Rightarrow> world \<Rightarrow> bool \<times> world" where
  "detectSpamTrapPattern addr w =
     (spamTrapPatterns addr, w\<lparr>spamtrap_calls := spamtrap_calls w + 1\<rparr>)"

text \<open>An awaited probe either resolves with a boolean or rejects.\<close>

datatype probe_outcome = Resolved bool | Rejected

section \<open>The probes\<close>

definition validDomains :: "string list" where
  "validDomains =
     [''gmail.com'', ''yahoo.com'', ''hotmail.com'', ''outlook.com'',
      ''aol.com'', ''icloud.com'', ''protonmail.com'', ''zoho.com'']"

text \<open>\<^verbatim>\<open>a || b || Math.random() > 0.1\<close> draws only when both \<open>a\<close> and \<open>b\<close> are false.\<close>

definition checkMXRecords :: "env \<Rightarrow> string \<Rightarrow> world \<Rightarrow> probe_outcome \<times> world" where
  "checkMXRecords e domn w =
     (let w1 = w\<lparr>mx_calls := mx_calls w + 1\<rparr>
      in if toLowerCase domn \<in> set validDomains \<or> isEnterpriseDomain domn
         then (Resolved True, w1)
         else (let (r, w2) = Math_random e w1 in (Resolved (r > 1 / 10), w2)))"

text \<open>The second piece of \<^verbatim>\<open>email.split('@')\<close>, \<^verbatim>\<open>undefined\<close> when there is none.\<close>

definition domainOf :: "string \<Rightarrow> string option" where
  "domainOf addr =
     (case split_str (\<lambda>c. c = CHR ''@'') addr of
        localPart # domn # rest \<Rightarrow> Some domn
      | _ \<Rightarrow> None)"

text \<open>\<^verbatim>\<open>checkSMTP\<close> is an async function: \<^verbatim>\<open>isEnterpriseDomain(undefined)\<close> throwing inside it
  rejects its promise.\<close>

definition checkSMTP :: "env \<Rightarrow> string \<Rightarrow> world \<Rightarrow> probe_outcome \<times> world" where
  "checkSMTP e addr w =
     (let w1 = w\<lparr>smtp_calls := smtp_calls w + 1\<rparr>
      in case domainOf addr of
           None \<Rightarrow> (Rejected, w1)
         | Some domn \<Rightarrow>
             if isEnterpriseDomain domn then (Resolved True, w1)
             else (let (r, w2) = Math_random e w1 in (Resolved (r > 5 / 100), w2)))"

section \<open>The retry loop\<close>

text \<open>
  The two retry loops of \<^verbatim>\<open>validateEmailWithRetry\<close> are the same loop over two probes:
  \<^verbatim>\<open>
  while (retries < maxAttempts) {
    try {
      ok = await probe();
      if (ok) break;
      retries++;
      if (retries < maxAttempts) await new Promise(r => setTimeout(r, backoffDelay));
    } catch (error) { retries++; }
  }\<close>
  It is written once, over any state \<open>'w\<close>, a probe and the sleep on that state, and returns
  the flag, the counter and the state at the exit of the loop.
\<close>

function retry_loop ::
  "('w \<Rightarrow> probe_outcome \<times> 'w) \<Rightarrow> (int \<Rightarrow> 'w \<Rightarrow> 'w) \<Rightarrow> RetryStrategy \<Rightarrow> bool \<Rightarrow> int \<Rightarrow> 'w
     \<Rightarrow> bool \<times> int \<times> 'w" where
  "retry_loop probe sleep rs ok retries w =
     (if retries < maxAttempts rs then
        (case probe w of
           (Resolved r, w1) \<Rightarrow>
             if r then (True, retries, w1)
             else if retries + 1 < maxAttempts rs
               then retry_loop probe sleep rs False (retries + 1) (sleep (backoffDelay rs) w1)
               else retry_loop probe sleep rs False (retries + 1) w1
         | (Rejected, w1) \<Rightarrow> retry_loop probe sleep rs ok (retries + 1) w1)
      else (ok, retries, w))"
  by pat_completeness auto
termination
  by (relation "measure (\<lambda>(probe, sleep, rs, ok, retries, w). nat (maxAttempts rs - retries))") auto

declare retry_loop.simps [simp del]

text \<open>A probe that follows a script: its \<open>n\<close>-th invocation has the outcome \<open>script n\<close>. The
  state counts the invocations and logs the sleeps.\<close>

record probe_log =
  invocations :: nat
  sleeps :: "int list"

definition scripted :: "(nat \<Rightarrow> probe_outcome) \<Rightarrow> probe_log \<Rightarrow> probe_outcome \<times> probe_log" where
  "scripted script l = (script (invocations l), l\<lparr>invocations := invocations l + 1\<rparr>)"

definition log_sleep :: "int \<Rightarrow> probe_log \<Rightarrow> probe_log" where
  "log_sleep delay l = l\<lparr>sleeps := sleeps l @ [delay]\<rparr>"

definition log0 :: probe_log where
  "log0 = \<lparr>invocations = 0, sleeps = []\<rparr>"

section \<open>The pipeline of one address\<close>

text \<open>
  \<^verbatim>\<open>validator.isEmail\<close> and \<^verbatim>\<open>validator.isFQDN\<close> belong to the validator package, which is
  not part of the repository: the pipeline takes them, with the options the module passes
  fixed, as the parameters \<open>isEmail\<close> and \<open>isFQDN\<close>. \<^verbatim>\<open>validator.isFQDN(undefined)\<close> throws a
  \<^verbatim>\<open>TypeError\<close>. The pipeline returns what the promise settles with, and the world at that
  moment.
\<close>

definition validateEmailWithRetry ::
  "(string \<Rightarrow> bool) \<Rightarrow> (string \<Rightarrow> bool) \<Rightarrow> env \<Rightarrow> string \<Rightarrow> ValidationOptions \<Rightarrow> world
     \<Rightarrow> (js_error + EmailValidationResult) \<times> world" where
  "validateEmailWithRetry isEmail isFQDN e addr options w =
     (let isValidFormat = isEmail addr
      in if \<not> isValidFormat then
           (Inr \<lparr>email = addr, status = DoNotContact, confidence = Low,
                 reason = Some ''Invalid email format (RFC 5322)'',
                 timestamp = now e, retryAfter = None,
                 details = \<lparr>format = False, domain = False, disposable = False,
                   mxRecords = False, smtp = False, spamTrap = False, corporate = False,
                   blacklisted = False, retryCount = 0,
                   verificationSteps = [''Format check failed'']\<rparr>\<rparr>, w)
         else (case domainOf addr of
           None \<Rightarrow> (Inl TypeError, w)
         | Some domn \<Rightarrow>
           (let steps1 = [''Format check passed''];
                isValidDomain = isFQDN domn
            in if \<not> isValidDomain then
                 (Inr \<lparr>email = addr, status = DoNotContact, confidence = Low,
                       reason = Some ''Invalid domain format'',
                       timestamp = now e, retryAfter = None,
                       details = \<lparr>format = True, domain = False, disposable = False,
                         mxRecords = False, smtp = False, spamTrap = False, corporate = False,
                         blacklisted = False, retryCount = 0,
                         verificationSteps = steps1\<rparr>\<rparr>, w)
               else
                 (let steps2 = steps1 @ [''Domain format valid''];
                      isCorporate = isEnterpriseDomain domn;
                      steps3 = (if isCorporate then steps2 @ [''Enterprise domain detected'']
                                else steps2);
                      (mxExists, mxRetries, w1) =
                        retry_loop (checkMXRecords e domn) setTimeout (retryStrategy options)
                          False 0 w
                  in if \<not> mxExists \<and> \<not> isCorporate then
                       (Inr \<lparr>email = addr, status = DoNotContact, confidence = High,
                             reason = Some ''No MX records found'',
                             timestamp = now e, retryAfter = None,
                             details = \<lparr>format = True, domain = True, disposable = False,
                               mxRecords = False, smtp = False, spamTrap = False,
                               corporate = False, blacklisted = False, retryCount = mxRetries,
                               verificationSteps = steps3\<rparr>\<rparr>, w1)
                     else
                       (let steps4 = steps3 @ [''MX records verified''];
                            (smtpValid, smtpRetries, w2) =
                              retry_loop (checkSMTP e addr) setTimeout (retryStrategy options)
                                False 0 w1
                        in if \<not> smtpValid \<and> \<not> isCorporate then
                             (if smtpRetries < maxAttempts (retryStrategy options) then
                                (Inr \<lparr>email = addr, status = RetryLater, confidence = Medium,
                                      reason = Some ''Temporary SMTP failure'',
                                      timestamp = now e,
                                      retryAfter = Some (backoffDelay (retryStrategy options)),
                                      details = \<lparr>format = True, domain = True,
                                        disposable = False, mxRecords = True, smtp = False,
                                        spamTrap = False, corporate = False,
                                        blacklisted = False, retryCount = smtpRetries,
                                        verificationSteps = steps4\<rparr>\<rparr>, w2)
                              else
                                (Inr \<lparr>email = addr, status = DoNotContact, confidence = High,
                                      reason = Some ''SMTP verification failed'',
                                      timestamp = now e, retryAfter = None,
                                      details = \<lparr>format = True, domain = True,
                                        disposable = False, mxRecords = True, smtp = False,
                                        spamTrap = False, corporate = False,
                                        blacklisted = False, retryCount = smtpRetries,
                                        verificationSteps = steps4\<rparr>\<rparr>, w2))
                           else
                             (Inr \<lparr>email = addr, status = Valid, confidence = High,
                                   reason = None, timestamp = now e, retryAfter = None,
                                   details = \<lparr>format = True, domain = True, disposable = False,
                                     mxRecords = True, smtp = True, spamTrap = False,
                                     corporate = isCorporate, blacklisted = False,
                                     retryCount = max mxRetries smtpRetries,
                                     verificationSteps =
                                       steps4 @ [''SMTP verification passed'']\<rparr>\<rparr>, w2))))))"

section \<open>The batch\<close>

text \<open>\<^verbatim>\<open>for (let i = 0; i < array.length; i += size) chunks.push(array.slice(i, i + size))\<close>:
  with \<open>size = 0\<close> the loop of \<^verbatim>\<open>chunk\<close> never ends on a non-empty array, so the result is an
  option and not returning is \<open>None\<close>.\<close>

partial_function (option) chunk_loop ::
  "'a list \<Rightarrow> nat \<Rightarrow> nat \<Rightarrow> 'a list list \<Rightarrow> 'a list list option" where
  "chunk_loop array sz i chunks =
     (if i < length array
      then chunk_loop array sz (i + sz) (chunks @ [take sz (drop i array)])
      else Some chunks)"

declare chunk_loop.simps [code]

definition chunk :: "'a list \<Rightarrow> nat \<Rightarrow> 'a list list option" where
  "chunk array sz = chunk_loop array sz 0 []"

text \<open>
  All the pipelines of a batch run concurrently and share \<^verbatim>\<open>Math.random\<close>, so which values a
  pipeline sees depends on the interleaving: \<open>envs j p\<close> is the environment of the pipeline
  of the \<open>p\<close>-th address of the \<open>j\<close>-th chunk, any interleaving giving some \<open>envs\<close>. The
  results of a chunk are in the order of its addresses (\<^verbatim>\<open>Promise.all\<close>) and are pushed when
  its last pipeline is done: \<open>finished j\<close> is that moment for chunk \<open>j\<close>, chunks done at the
  same moment pushing in the order of their indices. A pipeline that rejects rejects the
  batch. \<^verbatim>\<open>onProgress\<close> is taken to return normally and is left out. Beside what the promise
  settles with, the model returns the final worlds of all pipelines, in input order.
\<close>

definition validateEmailBatch ::
  "(string \<Rightarrow> bool) \<Rightarrow> (string \<Rightarrow> bool) \<Rightarrow> (nat \<Rightarrow> nat \<Rightarrow> env) \<Rightarrow> (nat \<Rightarrow> nat) \<Rightarrow> string list
     \<Rightarrow> ValidationOptions \<Rightarrow> ((js_error + EmailValidationResult list) \<times> world list) option" where
  "validateEmailBatch isEmail isFQDN envs finished emails options =
     (case chunk emails CHUNK_SIZE of
        None \<Rightarrow> None
      | Some chunks \<Rightarrow>
          (let runs =
                 map (\<lambda>(j, c).
                        map (\<lambda>(p, addr).
                               validateEmailWithRetry isEmail isFQDN (envs j p) addr options world0)
                          (enumerate 0 c))
                   (enumerate 0 chunks);
               worlds = concat (map (map snd) runs);
               settled = map (map fst) runs
           in (case filter isl (concat settled) of
                 rejection # others \<Rightarrow> Some (Inl (projl rejection), worlds)
               | [] \<Rightarrow>
                   (let chunkResults = map (map projr) settled;
                        results =
                          concat (map (\<lambda>j. chunkResults ! j)
                                    (sort_key finished [0..<length chunks]))
                    in if length results = 0
                       then Some (Inl (Error ''No results generated from validation''), worlds)
                       else Some (Inr results, worlds)))))"

section \<open>The caller (App.tsx)\<close>

text \<open>
  \<^verbatim>\<open>onDrop\<close> checks the file, parses it and validates the batch; an error thrown by either
  is caught and its message stored (\<^verbatim>\<open>setError(error.message)\<close>); the model stores the
  error that carries the message, and an \<^verbatim>\<open>Error\<close> with the message for the two file checks.
  The model keeps the state variables \<open>error\<close> and \<open>results\<close> and returns, beside them, the
  final worlds of the pipelines that ran.
\<close>

record AppState =
  error :: "js_error option"
  results :: "EmailValidationResult list"

definition onDrop ::
  "(string \<Rightarrow> bool) \<Rightarrow> (string \<Rightarrow> bool) \<Rightarrow> (nat \<Rightarrow> nat \<Rightarrow> env) \<Rightarrow> (nat \<Rightarrow> nat) \<Rightarrow> File \<Rightarrow> AppState
     \<Rightarrow> (AppState \<times> world list) option" where
  "onDrop isEmail isFQDN envs finished file st =
     (if \<not> validateFileSize file
      then Some (st\<lparr>error := Some (Error ''File size exceeds 10MB limit'')\<rparr>, [])
      else if \<not> validateFileType file
      then Some (st\<lparr>error := Some (Error ''Only CSV and TXT files are supported'')\<rparr>, [])
      else (case parseEmailFile file of
              Inl err \<Rightarrow> Some (\<lparr>error = Some err, results = []\<rparr>, [])
            | Inr emails \<Rightarrow>
                (case validateEmailBatch isEmail isFQDN envs finished emails DEFAULT_OPTIONS of
                   None \<Rightarrow> None
                 | Some (Inl err, worlds) \<Rightarrow> Some (\<lparr>error = Some err, results = []\<rparr>, worlds)
                 | Some (Inr validationResults, worlds) \<Rightarrow>
                     Some (\<lparr>error = None, results = validationResults\<rparr>, worlds))))"

section \<open>The retry loop: unfolding and exit\<close>

lemma retry_loop_done:
  "\<not> retries < maxAttempts rs \<Longrightarrow> retry_loop probe sleep rs ok retries w = (ok, retries, w)"
  by (subst retry_loop.simps) simp

lemma retry_loop_step:
  "retries < maxAttempts rs \<Longrightarrow>
   retry_loop probe sleep rs ok retries w =
     (case probe w of
        (Resolved r, w1) \<Rightarrow>
          if r then (True, retries, w1)
          else if retries + 1 < maxAttempts rs
            then retry_loop probe sleep rs False (retries + 1) (sleep (backoffDelay rs) w1)
            else retry_loop probe sleep rs False (retries + 1) w1
      | (Rejected, w1) \<Rightarrow> retry_loop probe sleep rs ok (retries + 1) w1)"
  by (subst retry_loop.simps) simp

lemma retry_loop_exit:
  "retry_loop probe sleep rs ok retries w = (b, n, w') \<Longrightarrow>
     retries \<le> n \<and> (\<not> b \<longrightarrow> maxAttempts rs \<le> n)"
proof (induction "nat (maxAttempts rs - retries)" arbitrary: ok retries w)
  case 0
  then show ?case by (simp add: retry_loop_done)
next
  case (Suc k)
  have k: "k = nat (maxAttempts rs - (retries + 1))" using Suc.hyps(2) by linarith
  have lt: "retries < maxAttempts rs" using Suc.hyps(2) by linarith
  from Suc.prems show ?case
    by (auto simp: retry_loop_step[OF lt] split: if_splits prod.splits probe_outcome.splits
             dest!: Suc.hyps(1)[OF k])
qed


lemma retry_loop_never:
  assumes step: "\<And>w. I w \<Longrightarrow> fst (probe w) \<noteq> Resolved True \<and> I (snd (probe w))"
    and sl: "\<And>d w. I w \<Longrightarrow> I (sleep d w)"
  shows "I w \<Longrightarrow> fst (retry_loop probe sleep rs False retries w) = False"
proof (induction "nat (maxAttempts rs - retries)" arbitrary: retries w)
  case 0
  then show ?case by (simp add: retry_loop_done)
next
  case (Suc k)
  obtain out w1 where pw: "probe w = (out, w1)" by (cases "probe w")
  with step[OF Suc.prems] have out: "out \<noteq> Resolved True" and I1: "I w1" by auto
  have k: "k = nat (maxAttempts rs - (retries + 1))" using Suc.hyps(2) by linarith
  have lt: "retries < maxAttempts rs" using Suc.hyps(2) by linarith
  show ?case
  proof (cases out)
    case (Resolved r)
    with out have "\<not> r" by auto
    then show ?thesis
      using Suc.hyps(1)[OF k I1] Suc.hyps(1)[OF k sl[OF I1]] pw Resolved
      by (simp add: retry_loop_step[OF lt])
  next
    case Rejected
    then show ?thesis
      using Suc.hyps(1)[OF k I1] pw by (simp add: retry_loop_step[OF lt])
  qed
qed

lemma retry_loop_upper:
  "retry_loop probe sleep rs ok retries w = (b, n, w') \<Longrightarrow> retries \<le> maxAttempts rs \<Longrightarrow>
     n \<le> maxAttempts rs"
proof (induction "nat (maxAttempts rs - retries)" arbitrary: ok retries w)
  case 0
  then show ?case by (simp add: retry_loop_done)
next
  case (Suc k)
  have k: "k = nat (maxAttempts rs - (retries + 1))" using Suc.hyps(2) by linarith
  have lt: "retries < maxAttempts rs" using Suc.hyps(2) by linarith
  from Suc.prems lt show ?case
    by (auto simp: retry_loop_step[OF lt] split: if_splits prod.splits probe_outcome.splits
             dest!: Suc.hyps(1)[OF k])
qed

lemma retry_loop_preserves:
  assumes "\<And>w. f (snd (probe w)) = f w" and "\<And>d w. f (sleep d w) = f w"
  shows "f (snd (snd (retry_loop probe sleep rs ok retries w))) = f w"
proof (induction "nat (maxAttempts rs - retries)" arbitrary: ok retries w)
  case 0
  then show ?case by (simp add: retry_loop_done)
next
  case (Suc k)
  have k: "k = nat (maxAttempts rs - (retries + 1))" using Suc.hyps(2) by linarith
  have lt: "retries < maxAttempts rs" using Suc.hyps(2) by linarith
  obtain out w1 where pw: "probe w = (out, w1)" by (cases "probe w")
  then have w1: "f w1 = f w" using assms(1)[of w] by simp
  show ?case
    using Suc.hyps(1)[OF k] pw w1 assms(2)
    by (cases out) (simp_all add: retry_loop_step[OF lt])
qed

lemma retry_loop_along:
  assumes "\<forall>j<k. fst (probe (st j)) = Resolved False \<and>
                  st (Suc j) = sleep (backoffDelay rs) (snd (probe (st j)))"
    and "fst (probe (st k)) = Resolved True" and "int k < maxAttempts rs"
  shows "i \<le> k \<Longrightarrow> retry_loop probe sleep rs ok (int i) (st i) = (True, int k, snd (probe (st k)))"
proof (induction "k - i" arbitrary: i ok)
  case 0
  then have "i = k" by simp
  with assms(2,3) show ?case
    by (cases "probe (st k)") (simp add: retry_loop_step[of "int k"])
next
  case (Suc m)
  then have lt: "i < k" and m: "m = k - Suc i" and le: "Suc i \<le> k" by auto
  from assms(1) lt have f: "fst (probe (st i)) = Resolved False"
    and nxt: "st (Suc i) = sleep (backoffDelay rs) (snd (probe (st i)))" by auto
  have a: "int i < maxAttempts rs" "int i + 1 < maxAttempts rs" using lt assms(3) by auto
  show ?case
    using Suc.hyps(1)[OF m le, of False] a f nxt
    by (cases "probe (st i)") (simp add: retry_loop_step[OF a(1)] add.commute)
qed

lemma smtp_never:
  assumes "domainOf addr = Some d" and "\<not> isEnterpriseDomain d"
    and "\<forall>n\<ge>random_calls w. random e n \<le> 5 / 100"
  shows "fst (retry_loop (checkSMTP e addr) setTimeout rs False r w) = False"
proof (rule retry_loop_never[where I = "\<lambda>w::world. \<forall>n\<ge>random_calls w. random e n \<le> 5 / 100"])
  fix w :: world assume "\<forall>n\<ge>random_calls w. random e n \<le> 5 / 100"
  then show "fst (checkSMTP e addr w) \<noteq> Resolved True \<and>
      (\<forall>n\<ge>random_calls (snd (checkSMTP e addr w)). random e n \<le> 5 / 100)"
    using assms(1,2) by (auto simp: checkSMTP_def Math_random_def Let_def not_less)
next
  fix dl and w :: world assume "\<forall>n\<ge>random_calls w. random e n \<le> 5 / 100"
  then show "\<forall>n\<ge>random_calls (setTimeout dl w). random e n \<le> 5 / 100"
    by (simp add: setTimeout_def)
next
  show "\<forall>n\<ge>random_calls w. random e n \<le> 5 / 100" by (rule assms(3))
qed


section \<open>The retry loop on scripted probes\<close>

lemma scripted_apply:
  "scripted script \<lparr>invocations = i, sleeps = s\<rparr> = (script i, \<lparr>invocations = Suc i, sleeps = s\<rparr>)"
  by (simp add: scripted_def)

lemma log_sleep_apply:
  "log_sleep d \<lparr>invocations = i, sleeps = s\<rparr> = \<lparr>invocations = i, sleeps = s @ [d]\<rparr>"
  by (simp add: log_sleep_def)

lemma scripted_fails_then_succeeds:
  assumes "script k = Resolved True" and "int k < maxAttempts rs"
  shows "i \<le> k \<Longrightarrow> \<forall>j. i \<le> j \<and> j < k \<longrightarrow> script j = Resolved False \<Longrightarrow>
     retry_loop (scripted script) log_sleep rs ok (int i) \<lparr>invocations = i, sleeps = s\<rparr> =
       (True, int k, \<lparr>invocations = Suc k, sleeps = s @ replicate (k - i) (backoffDelay rs)\<rparr>)"
proof (induction "k - i" arbitrary: i s ok)
  case 0
  then have "i = k" by simp
  with assms show ?case by (simp add: retry_loop_step[of "int k"] scripted_apply)
next
  case (Suc m)
  then have lt: "i < k" and m: "m = k - Suc i" and le: "Suc i \<le> k" by auto
  have f: "script i = Resolved False" using Suc.prems(2) lt by auto
  have rest: "\<forall>j. Suc i \<le> j \<and> j < k \<longrightarrow> script j = Resolved False" using Suc.prems(2) by auto
  have a: "int i < maxAttempts rs" "int i + 1 < maxAttempts rs" using lt assms(2) by auto
  have r: "replicate (k - i) (backoffDelay rs) = backoffDelay rs # replicate (k - Suc i) (backoffDelay rs)"
    using lt by (metis Suc.hyps(2) replicate_Suc m)
  show ?case
    using Suc.hyps(1)[OF m le rest, of False "s @ [backoffDelay rs]"] a f
    by (simp add: retry_loop_step[OF a(1)] scripted_apply log_sleep_apply r add.commute)
qed

lemma scripted_same_outcome:
  assumes "\<forall>j. (f j = Resolved True) = (g j = Resolved True)"
  shows "fst (retry_loop (scripted f) log_sleep rs False r \<lparr>invocations = i, sleeps = s1\<rparr>) =
         fst (retry_loop (scripted g) log_sleep rs False r \<lparr>invocations = i, sleeps = s2\<rparr>) \<and>
         fst (snd (retry_loop (scripted f) log_sleep rs False r \<lparr>invocations = i, sleeps = s1\<rparr>)) =
         fst (snd (retry_loop (scripted g) log_sleep rs False r \<lparr>invocations = i, sleeps = s2\<rparr>)) \<and>
         invocations (snd (snd (retry_loop (scripted f) log_sleep rs False r \<lparr>invocations = i, sleeps = s1\<rparr>))) =
         invocations (snd (snd (retry_loop (scripted g) log_sleep rs False r \<lparr>invocations = i, sleeps = s2\<rparr>)))"
proof (induction "nat (maxAttempts rs - r)" arbitrary: r i s1 s2)
  case 0
  then show ?case by (simp add: retry_loop_done)
next
  case (Suc k)
  have k: "k = nat (maxAttempts rs - (r + 1))" using Suc.hyps(2) by linarith
  have lt: "r < maxAttempts rs" using Suc.hyps(2) by linarith
  note IH = Suc.hyps(1)[OF k]
  show ?case
  proof (cases "f i = Resolved True")
    case True
    with assms have "g i = Resolved True" by blast
    with True show ?thesis by (simp add: retry_loop_step[OF lt] scripted_apply)
  next
    case False
    with assms have G: "g i \<noteq> Resolved True" by blast
    show ?thesis
      using False G IH
      by (cases "f i"; cases "g i") (simp_all add: retry_loop_step[OF lt] scripted_apply log_sleep_apply)
  qed
qed

lemma scripted_sleeps:
  "retry_loop (scripted f) log_sleep rs False (int i) \<lparr>invocations = i, sleeps = s\<rparr> = (b, n, l) \<Longrightarrow>
     sleeps l = s @ replicate (length (filter (\<lambda>j. f j = Resolved False \<and> int j + 1 < maxAttempts rs) [i..<nat n])) (backoffDelay rs)"
proof (induction "nat (maxAttempts rs - int i)" arbitrary: i s)
  case 0
  then show ?case by (auto simp add: retry_loop_done)
next
  case (Suc k)
  have k: "k = nat (maxAttempts rs - int (Suc i))" using Suc.hyps(2) by linarith
  have lt: "int i < maxAttempts rs" using Suc.hyps(2) by linarith
  note IH = Suc.hyps(1)[OF k]
  have up: "i < nat n \<Longrightarrow> [i..<nat n] = i # [Suc i..<nat n]" by (simp add: upt_conv_Cons)
  show ?case
  proof (cases "f i")
    case (Resolved r)
    show ?thesis
    proof (cases r)
      case True
      with Resolved Suc.prems show ?thesis by (auto simp add: retry_loop_step[OF lt] scripted_apply)
    next
      case False
      show ?thesis
      proof (cases "int i + 1 < maxAttempts rs")
        case True
        with False Resolved Suc.prems
        have rec: "retry_loop (scripted f) log_sleep rs False (int (Suc i)) \<lparr>invocations = Suc i, sleeps = s @ [backoffDelay rs]\<rparr> = (b, n, l)"
          by (simp add: retry_loop_step[OF lt] scripted_apply log_sleep_apply add.commute)
        from retry_loop_exit[OF rec] have "i < nat n" by linarith
        with IH[OF rec] up Resolved False True show ?thesis by simp
      next
        case F2: False
        with False Resolved Suc.prems
        have rec: "retry_loop (scripted f) log_sleep rs False (int (Suc i)) \<lparr>invocations = Suc i, sleeps = s\<rparr> = (b, n, l)"
          by (simp add: retry_loop_step[OF lt] scripted_apply log_sleep_apply add.commute)
        from retry_loop_exit[OF rec] have "i < nat n" by linarith
        with IH[OF rec] up Resolved False F2 show ?thesis by simp
      qed
    qed
  next
    case Rejected
    with Suc.prems
    have rec: "retry_loop (scripted f) log_sleep rs False (int (Suc i)) \<lparr>invocations = Suc i, sleeps = s\<rparr> = (b, n, l)"
      by (simp add: retry_loop_step[OF lt] scripted_apply log_sleep_apply add.commute)
    from retry_loop_exit[OF rec] have "i < nat n" by linarith
    with IH[OF rec] up Rejected show ?thesis by simp
  qed
qed

section \<open>The pipeline\<close>

lemma retry_loop_first_true:
  "retries < maxAttempts rs \<Longrightarrow> probe w = (Resolved True, w1) \<Longrightarrow>
     retry_loop probe sleep rs ok retries w = (True, retries, w1)"
  by (simp add: retry_loop_step)

lemma retry_loop_cong_strategy:
  "maxAttempts rs = maxAttempts rs' \<Longrightarrow> backoffDelay rs = backoffDelay rs' \<Longrightarrow>
     retry_loop probe sleep rs ok retries w = retry_loop probe sleep rs' ok retries w"
proof (induction "nat (maxAttempts rs - retries)" arbitrary: ok retries w)
  case 0
  then show ?case by (simp add: retry_loop_done)
next
  case (Suc k)
  have k: "k = nat (maxAttempts rs - (retries + 1))" using Suc.hyps(2) by linarith
  have lt: "retries < maxAttempts rs" "retries < maxAttempts rs'" using Suc.hyps(2) Suc.prems by linarith+
  show ?case
    using Suc.hyps(1)[OF k Suc.prems] Suc.prems
    by (simp add: retry_loop_step[OF lt(1)] retry_loop_step[OF lt(2)]
             split: prod.splits probe_outcome.splits)
qed

lemma checkMXRecords_corporate:
  "isEnterpriseDomain d \<Longrightarrow> checkMXRecords e d w = (Resolved True, w\<lparr>mx_calls := mx_calls w + 1\<rparr>)"
  by (simp add: checkMXRecords_def)

lemma checkSMTP_corporate:
  "domainOf addr = Some d \<Longrightarrow> isEnterpriseDomain d \<Longrightarrow>
     checkSMTP e addr w = (Resolved True, w\<lparr>smtp_calls := smtp_calls w + 1\<rparr>)"
  by (simp add: checkSMTP_def)

lemma mx_loop_corporate:
  "isEnterpriseDomain d \<Longrightarrow>
   retry_loop (checkMXRecords e d) setTimeout rs False 0 w =
     (if 0 < maxAttempts rs then (True, 0, w\<lparr>mx_calls := mx_calls w + 1\<rparr>) else (False, 0, w))"
  by (simp add: retry_loop_first_true checkMXRecords_corporate retry_loop_done)

lemma smtp_loop_corporate:
  "domainOf addr = Some d \<Longrightarrow> isEnterpriseDomain d \<Longrightarrow>
   retry_loop (checkSMTP e addr) setTimeout rs False 0 w =
     (if 0 < maxAttempts rs then (True, 0, w\<lparr>smtp_calls := smtp_calls w + 1\<rparr>) else (False, 0, w))"
  by (simp add: retry_loop_first_true checkSMTP_corporate retry_loop_done)

lemma flags_false:
  "fst (validateEmailWithRetry isEmail isFQDN e addr options w) = Inr r \<Longrightarrow>
     \<not> spamTrap (details r) \<and> \<not> disposable (details r) \<and> \<not> blacklisted (details r)"
  by (auto simp: validateEmailWithRetry_def Let_def split: if_splits option.splits prod.splits)

lemma email_field:
  "fst (validateEmailWithRetry isEmail isFQDN e addr options w) = Inr r \<Longrightarrow> email r = addr"
  by (auto simp: validateEmailWithRetry_def Let_def split: if_splits option.splits prod.splits)

lemma mx_loop_spamtrap_calls:
  "retry_loop (checkMXRecords e d) setTimeout rs ok retries w = (b, n, w') \<Longrightarrow>
     spamtrap_calls w' = spamtrap_calls w"
  using retry_loop_preserves[of spamtrap_calls "checkMXRecords e d" setTimeout rs ok retries w]
  by (simp add: checkMXRecords_def Math_random_def setTimeout_def Let_def)

lemma smtp_loop_spamtrap_calls:
  "retry_loop (checkSMTP e addr) setTimeout rs ok retries w = (b, n, w') \<Longrightarrow>
     spamtrap_calls w' = spamtrap_calls w"
  using retry_loop_preserves[of spamtrap_calls "checkSMTP e addr" setTimeout rs ok retries w]
  by (simp add: checkSMTP_def Math_random_def setTimeout_def Let_def split: option.splits)

lemma pipeline_spamtrap_calls:
  "spamtrap_calls (snd (validateEmailWithRetry isEmail isFQDN e addr options w)) =
     spamtrap_calls w"
  by (auto simp: validateEmailWithRetry_def Let_def
           split: if_splits option.splits prod.splits
           dest!: mx_loop_spamtrap_calls smtp_loop_spamtrap_calls)

text \<open>The probes of the module do not raise where the pipeline calls them: the MX probe
  never rejects, and the SMTP probe rejects only on an address without an at sign, which
  does not reach the loops.\<close>

lemma checkMXRecords_never_rejects: "fst (checkMXRecords e d w) \<noteq> Rejected"
  by (simp add: checkMXRecords_def Math_random_def Let_def)

lemma checkSMTP_rejects_iff: "(fst (checkSMTP e addr w) = Rejected) = (domainOf addr = None)"
  by (simp add: checkSMTP_def Math_random_def Let_def split: option.splits)

text \<open>No result of the pipeline is RetryLater: the SMTP loop leaves with the flag false
  only when its counter has reached \<open>maxAttempts\<close>.\<close>

lemma never_RetryLater:
  "fst (validateEmailWithRetry isEmail isFQDN e addr options w) = Inr r \<Longrightarrow> status r \<noteq> RetryLater"
  by (auto simp: validateEmailWithRetry_def Let_def split: if_splits option.splits prod.splits
           dest: retry_loop_exit)

lemma options_only_strategy:
  assumes "maxAttempts (retryStrategy o1) = maxAttempts (retryStrategy o2)"
    and "backoffDelay (retryStrategy o1) = backoffDelay (retryStrategy o2)"
  shows "validateEmailWithRetry isEmail isFQDN e addr o1 w =
         validateEmailWithRetry isEmail isFQDN e addr o2 w"
  unfolding validateEmailWithRetry_def retry_loop_cong_strategy[OF assms] assms
  by (rule refl)

section \<open>The claims about the pipeline and its retry loops\<close>

text \<open>
  C1. A non-corporate address passes the format and the domain check and its MX loop ends
  with a success, so the pipeline reaches the SMTP loop; every value \<^verbatim>\<open>Math.random()\<close> hands
  out from then on is at most 0.05, so the SMTP probe never succeeds. Then the SMTP loop
  leaves with the flag false and the attempt counter equal to \<open>maxAttempts\<close>, the test
  \<open>smtpRetries < maxAttempts\<close> of the RetryLater branch is false, and the result is
  DoNotContact, High, with the reason SMTP verification failed.
\<close>

theorem smtp_failure_is_terminal:
  assumes "isEmail addr" and "domainOf addr = Some d" and "isFQDN d"
    and "\<not> isEnterpriseDomain d"
    and "retry_loop (checkMXRecords e d) setTimeout (retryStrategy options) False 0 w = (True, m, w1)"
    and "\<forall>n\<ge>random_calls w1. random e n \<le> 5 / 100"
  shows "\<exists>w2. retry_loop (checkSMTP e addr) setTimeout (retryStrategy options) False 0 w1 =
             (False, maxAttempts (retryStrategy options), w2) \<and>
           validateEmailWithRetry isEmail isFQDN e addr options w =
             (Inr \<lparr>email = addr, status = DoNotContact, confidence = High,
                   reason = Some ''SMTP verification failed'',
                   timestamp = now e, retryAfter = None,
                   details = \<lparr>format = True, domain = True, disposable = False,
                     mxRecords = True, smtp = False, spamTrap = False, corporate = False,
                     blacklisted = False, retryCount = maxAttempts (retryStrategy options),
                     verificationSteps = [''Format check passed'', ''Domain format valid'',
                       ''MX records verified'']\<rparr>\<rparr>, w2)"
proof -
  let ?rs = "retryStrategy options"
  obtain b n w2 where smtp: "retry_loop (checkSMTP e addr) setTimeout ?rs False 0 w1 = (b, n, w2)"
    by (cases "retry_loop (checkSMTP e addr) setTimeout ?rs False 0 w1") auto
  have "b = False" using smtp_never[OF assms(2,4,6), of ?rs 0] smtp by simp
  have pos: "0 < maxAttempts ?rs"
  proof (rule ccontr)
    assume "\<not> 0 < maxAttempts ?rs"
    then show False using assms(5) by (simp add: retry_loop_done)
  qed
  have "maxAttempts ?rs \<le> n" using retry_loop_exit[OF smtp] \<open>b = False\<close> by simp
  moreover have "n \<le> maxAttempts ?rs" using retry_loop_upper[OF smtp] pos by simp
  ultimately have n: "n = maxAttempts ?rs" by simp
  show ?thesis
    using assms(1-5) smtp \<open>b = False\<close> n
    by (simp add: validateEmailWithRetry_def)
qed

theorem smtp_failure_is_terminal_witness:
  "validateEmailWithRetry (\<lambda>s. True) (\<lambda>s. True) \<lparr>random = (\<lambda>n. 0), now = ''t''\<rparr>
      ''a@gmail.com'' DEFAULT_OPTIONS world0 =
     (Inr \<lparr>email = ''a@gmail.com'', status = DoNotContact, confidence = High,
           reason = Some ''SMTP verification failed'', timestamp = ''t'', retryAfter = None,
           details = \<lparr>format = True, domain = True, disposable = False,
             mxRecords = True, smtp = False, spamTrap = False, corporate = False,
             blacklisted = False, retryCount = 3,
             verificationSteps = [''Format check passed'', ''Domain format valid'',
               ''MX records verified'']\<rparr>\<rparr>,
      \<lparr>random_calls = 3, mx_calls = 1, smtp_calls = 3, spamtrap_calls = 0, timeouts = [2000, 2000]\<rparr>)"
proof -
  let ?e = "\<lparr>random = (\<lambda>n. 0 :: real), now = ''t''\<rparr>"
  have d: "domainOf ''a@gmail.com'' = Some ''gmail.com''" by code_simp
  have nc: "\<not> isEnterpriseDomain ''gmail.com''" by code_simp
  have mx: "retry_loop (checkMXRecords ?e ''gmail.com'') setTimeout (retryStrategy DEFAULT_OPTIONS)
              False 0 world0 = (True, 0, world0\<lparr>mx_calls := 1\<rparr>)"
    by code_simp
  have never: "\<forall>n\<ge>random_calls (world0\<lparr>mx_calls := 1\<rparr>). random ?e n \<le> 5 / 100" by simp
  have smtp: "retry_loop (checkSMTP ?e ''a@gmail.com'') setTimeout (retryStrategy DEFAULT_OPTIONS)
                False 0 (world0\<lparr>mx_calls := 1\<rparr>) =
              (False, 3, \<lparr>random_calls = 3, mx_calls = 1, smtp_calls = 3, spamtrap_calls = 0, timeouts = [2000, 2000]\<rparr>)"
    by code_simp
  from smtp_failure_is_terminal[of "\<lambda>s. True" "''a@gmail.com''" "''gmail.com''" "\<lambda>s. True" ?e
      DEFAULT_OPTIONS world0 0 "world0\<lparr>mx_calls := 1\<rparr>", OF _ d _ nc mx never]
  show ?thesis
    unfolding smtp by (simp add: DEFAULT_OPTIONS_def DEFAULT_RETRY_STRATEGY_def)
qed

text \<open>
  C2, as amended. An address with a corporate domain that passes the format check and whose
  domain passes the domain check is Valid, High, with \<open>corporate\<close> true, whatever the options
  and the random values are: no value is drawn from \<^verbatim>\<open>Math.random()\<close>, nothing sleeps, the retry
  count is 0, and each probe is invoked once when \<open>maxAttempts\<close> is positive (it resolves
  with true through the corporate override) and not at all otherwise.
\<close>

theorem corporate_is_valid:
  assumes "isEmail addr" and "domainOf addr = Some d" and "isFQDN d" and "isEnterpriseDomain d"
  shows "validateEmailWithRetry isEmail isFQDN e addr options w =
     (Inr \<lparr>email = addr, status = Valid, confidence = High, reason = None,
           timestamp = now e, retryAfter = None,
           details = \<lparr>format = True, domain = True, disposable = False, mxRecords = True,
             smtp = True, spamTrap = False, corporate = True, blacklisted = False,
             retryCount = 0,
             verificationSteps = [''Format check passed'', ''Domain format valid'',
               ''Enterprise domain detected'', ''MX records verified'',
               ''SMTP verification passed'']\<rparr>\<rparr>,
      if 0 < maxAttempts (retryStrategy options)
      then w\<lparr>mx_calls := mx_calls w + 1, smtp_calls := smtp_calls w + 1\<rparr> else w)"
  using assms
  by (simp add: validateEmailWithRetry_def mx_loop_corporate smtp_loop_corporate)


theorem corporate_is_valid_witness:
  "validateEmailWithRetry (\<lambda>s. True) (\<lambda>s. True) \<lparr>random = (\<lambda>n. 0), now = ''t''\<rparr>
      ''b@microsoft.com'' DEFAULT_OPTIONS world0 =
     (Inr \<lparr>email = ''b@microsoft.com'', status = Valid, confidence = High, reason = None,
           timestamp = ''t'', retryAfter = None,
           details = \<lparr>format = True, domain = True, disposable = False, mxRecords = True,
             smtp = True, spamTrap = False, corporate = True, blacklisted = False,
             retryCount = 0,
             verificationSteps = [''Format check passed'', ''Domain format valid'',
               ''Enterprise domain detected'', ''MX records verified'',
               ''SMTP verification passed'']\<rparr>\<rparr>,
      \<lparr>random_calls = 0, mx_calls = 1, smtp_calls = 1, spamtrap_calls = 0, timeouts = []\<rparr>)"
proof -
  have d: "domainOf ''b@microsoft.com'' = Some ''microsoft.com''" by code_simp
  have c: "isEnterpriseDomain ''microsoft.com''" by code_simp
  from corporate_is_valid[of "\<lambda>s. True" "''b@microsoft.com''" "''microsoft.com''" "\<lambda>s. True"
      "\<lparr>random = (\<lambda>n. 0), now = ''t''\<rparr>" DEFAULT_OPTIONS world0, OF _ d _ c]
  show ?thesis
    by (simp add: DEFAULT_OPTIONS_def DEFAULT_RETRY_STRATEGY_def world0_def)
qed

text \<open>
  C2 as stated fails: the domain of \<^verbatim>\<open>a b@microsoft.com\<close> is the enterprise domain
  \<^verbatim>\<open>microsoft.com\<close>, but \<^verbatim>\<open>validator.isEmail\<close> rejects the address for the space in its local
  part (the stand-in below rejects the addresses with a space), and the result is
  DoNotContact, Low, with \<open>corporate\<close> false.
\<close>

theorem corporate_counterexample:
  "domainOf ''a b@microsoft.com'' = Some ''microsoft.com'' \<and>
   isEnterpriseDomain ''microsoft.com'' \<and>
   fst (validateEmailWithRetry (\<lambda>s. CHR '' '' \<notin> set s) (\<lambda>s. True)
          \<lparr>random = (\<lambda>n. 1), now = ''t''\<rparr> ''a b@microsoft.com'' DEFAULT_OPTIONS world0) =
     Inr \<lparr>email = ''a b@microsoft.com'', status = DoNotContact, confidence = Low,
          reason = Some ''Invalid email format (RFC 5322)'', timestamp = ''t'',
          retryAfter = None,
          details = \<lparr>format = False, domain = False, disposable = False, mxRecords = False,
            smtp = False, spamTrap = False, corporate = False, blacklisted = False,
            retryCount = 0, verificationSteps = [''Format check failed'']\<rparr>\<rparr>"
proof -
  have d: "domainOf ''a b@microsoft.com'' = Some ''microsoft.com''" by code_simp
  have c: "isEnterpriseDomain ''microsoft.com''" by code_simp
  show ?thesis using d c by (simp add: validateEmailWithRetry_def)
qed

text \<open>
  C3, as amended. An address that fails the format check gets DoNotContact, Low, with the
  reason \<^verbatim>\<open>Invalid email format (RFC 5322)\<close>; the world is unchanged (no probe is invoked,
  nothing is drawn, nothing sleeps) and the verification steps are the one entry
  \<^verbatim>\<open>Format check failed\<close>.
\<close>

theorem format_failure_is_terminal:
  assumes "\<not> isEmail addr"
  shows "validateEmailWithRetry isEmail isFQDN e addr options w =
     (Inr \<lparr>email = addr, status = DoNotContact, confidence = Low,
           reason = Some ''Invalid email format (RFC 5322)'',
           timestamp = now e, retryAfter = None,
           details = \<lparr>format = False, domain = False, disposable = False, mxRecords = False,
             smtp = False, spamTrap = False, corporate = False, blacklisted = False,
             retryCount = 0, verificationSteps = [''Format check failed'']\<rparr>\<rparr>, w) \<and>
     length (verificationSteps (details (projr (fst
       (validateEmailWithRetry isEmail isFQDN e addr options w))))) = 1"
  using assms by (simp add: validateEmailWithRetry_def)


theorem format_failure_is_terminal_witness:
  "validateEmailWithRetry (\<lambda>s. CHR ''@'' \<in> set s) (\<lambda>s. True) \<lparr>random = (\<lambda>n. 1), now = ''t''\<rparr>
      ''not-an-email'' DEFAULT_OPTIONS world0 =
     (Inr \<lparr>email = ''not-an-email'', status = DoNotContact, confidence = Low,
           reason = Some ''Invalid email format (RFC 5322)'',
           timestamp = ''t'', retryAfter = None,
           details = \<lparr>format = False, domain = False, disposable = False, mxRecords = False,
             smtp = False, spamTrap = False, corporate = False, blacklisted = False,
             retryCount = 0, verificationSteps = [''Format check failed'']\<rparr>\<rparr>, world0)"
  using format_failure_is_terminal[of "\<lambda>s. CHR ''@'' \<in> set s" "''not-an-email''" "\<lambda>s. True"
      "\<lparr>random = (\<lambda>n. 1), now = ''t''\<rparr>" DEFAULT_OPTIONS world0]
  by simp

text \<open>
  C3 as stated fails on the reason: for \<^verbatim>\<open>not-an-email\<close>, which has no at sign and fails
  the format check, the reason is \<^verbatim>\<open>Invalid email format (RFC 5322)\<close> and not
  \<^verbatim>\<open>Invalid email format\<close>.
\<close>

theorem format_reason_counterexample:
  "reason (projr (fst (validateEmailWithRetry (\<lambda>s. CHR ''@'' \<in> set s) (\<lambda>s. True)
      \<lparr>random = (\<lambda>n. 1), now = ''t''\<rparr> ''not-an-email'' DEFAULT_OPTIONS world0))) =
     Some ''Invalid email format (RFC 5322)'' \<and>
   reason (projr (fst (validateEmailWithRetry (\<lambda>s. CHR ''@'' \<in> set s) (\<lambda>s. True)
      \<lparr>random = (\<lambda>n. 1), now = ''t''\<rparr> ''not-an-email'' DEFAULT_OPTIONS world0))) \<noteq>
     Some ''Invalid email format''"
  by (simp add: validateEmailWithRetry_def)

text \<open>
  C4. A probe returns false on its first \<open>k\<close> invocations and true on the next, with
  \<open>k < maxAttempts\<close>. Then the loop invokes it \<open>k + 1\<close> times and sleeps \<open>k\<close> times, each
  time for \<open>backoffDelay\<close>; it leaves with the flag true and the counter \<open>k\<close>.
\<close>

theorem retry_fails_then_succeeds:
  assumes "\<forall>j<k. script j = Resolved False" and "script k = Resolved True"
    and "int k < maxAttempts rs"
  shows "retry_loop (scripted script) log_sleep rs False 0 log0 =
     (True, int k, \<lparr>invocations = k + 1, sleeps = replicate k (backoffDelay rs)\<rparr>)"
  using scripted_fails_then_succeeds[where script = script and k = k and rs = rs and i = 0
      and ok = False and s = "[]"] assms
  by (simp add: log0_def)

theorem retry_fails_then_succeeds_witness:
  "retry_loop (scripted (\<lambda>n. if n < 2 then Resolved False else Resolved True)) log_sleep
      DEFAULT_RETRY_STRATEGY False 0 log0 =
     (True, 2, \<lparr>invocations = 3, sleeps = [2000, 2000]\<rparr>)"
  using retry_fails_then_succeeds[of 2 "\<lambda>n. if n < 2 then Resolved False else Resolved True"
      DEFAULT_RETRY_STRATEGY]
  by (simp add: DEFAULT_RETRY_STRATEGY_def numeral_2_eq_2)

text \<open>The same on the two stages, with their own probes: on a domain that is neither
  known nor corporate, \<open>k\<close> random values that fail the probe and one that passes it give
  \<open>k + 1\<close> invocations of the probe, \<open>k + 1\<close> values drawn and \<open>k\<close> sleeps.\<close>

lemma mx_stage_fails_then_succeeds:
  assumes "toLowerCase d \<notin> set validDomains" and "\<not> isEnterpriseDomain d"
    and "\<forall>j<k. random e (random_calls w + j) \<le> 1 / 10"
    and "1 / 10 < random e (random_calls w + k)"
    and "int k < maxAttempts rs"
  shows "retry_loop (checkMXRecords e d) setTimeout rs False 0 w =
     (True, int k,
      w\<lparr>random_calls := random_calls w + (k + 1), mx_calls := mx_calls w + (k + 1),
        timeouts := timeouts w @ replicate k (backoffDelay rs)\<rparr>)"
proof -
  define st where "st = (\<lambda>j. w\<lparr>random_calls := random_calls w + j, mx_calls := mx_calls w + j,
        timeouts := timeouts w @ replicate j (backoffDelay rs)\<rparr>)"
  have probe: "checkMXRecords e d (st j) =
      (Resolved (1 / 10 < random e (random_calls w + j)),
       (st j)\<lparr>random_calls := random_calls w + (j + 1), mx_calls := mx_calls w + (j + 1)\<rparr>)" for j
    using assms(1,2) by (simp add: checkMXRecords_def Math_random_def st_def)
  have "fst (checkMXRecords e d (st j)) = Resolved False \<and>
      st (Suc j) = setTimeout (backoffDelay rs) (snd (checkMXRecords e d (st j)))" if "j < k" for j
  proof -
    have "\<not> 1 / 10 < random e (random_calls w + j)" using assms(3) that by (simp add: not_less)
    then show ?thesis
      unfolding probe by (simp add: setTimeout_def st_def replicate_append_same)
  qed
  then have "\<forall>j<k. fst (checkMXRecords e d (st j)) = Resolved False \<and>
      st (Suc j) = setTimeout (backoffDelay rs) (snd (checkMXRecords e d (st j)))"
    by blast
  moreover have "fst (checkMXRecords e d (st k)) = Resolved True"
    using assms(4) by (simp add: probe)
  ultimately have "retry_loop (checkMXRecords e d) setTimeout rs False (int 0) (st 0) =
      (True, int k, snd (checkMXRecords e d (st k)))"
    using assms(5) by (intro retry_loop_along) auto
  moreover have "st 0 = w" by (simp add: st_def)
  ultimately show ?thesis unfolding probe by (simp add: st_def)
qed

lemma smtp_stage_fails_then_succeeds:
  assumes "domainOf addr = Some d" and "\<not> isEnterpriseDomain d"
    and "\<forall>j<k. random e (random_calls w + j) \<le> 5 / 100"
    and "5 / 100 < random e (random_calls w + k)"
    and "int k < maxAttempts rs"
  shows "retry_loop (checkSMTP e addr) setTimeout rs False 0 w =
     (True, int k,
      w\<lparr>random_calls := random_calls w + (k + 1), smtp_calls := smtp_calls w + (k + 1),
        timeouts := timeouts w @ replicate k (backoffDelay rs)\<rparr>)"
proof -
  define st where "st = (\<lambda>j. w\<lparr>random_calls := random_calls w + j, smtp_calls := smtp_calls w + j,
        timeouts := timeouts w @ replicate j (backoffDelay rs)\<rparr>)"
  have probe: "checkSMTP e addr (st j) =
      (Resolved (5 / 100 < random e (random_calls w + j)),
       (st j)\<lparr>random_calls := random_calls w + (j + 1), smtp_calls := smtp_calls w + (j + 1)\<rparr>)" for j
    using assms(1,2) by (simp add: checkSMTP_def Math_random_def st_def)
  have "fst (checkSMTP e addr (st j)) = Resolved False \<and>
      st (Suc j) = setTimeout (backoffDelay rs) (snd (checkSMTP e addr (st j)))" if "j < k" for j
  proof -
    have "\<not> 5 / 100 < random e (random_calls w + j)" using assms(3) that by (simp add: not_less)
    then show ?thesis
      unfolding probe by (simp add: setTimeout_def st_def replicate_append_same)
  qed
  then have "\<forall>j<k. fst (checkSMTP e addr (st j)) = Resolved False \<and>
      st (Suc j) = setTimeout (backoffDelay rs) (snd (checkSMTP e addr (st j)))"
    by blast
  moreover have "fst (checkSMTP e addr (st k)) = Resolved True"
    using assms(4) by (simp add: probe)
  ultimately have "retry_loop (checkSMTP e addr) setTimeout rs False (int 0) (st 0) =
      (True, int k, snd (checkSMTP e addr (st k)))"
    using assms(5) by (intro retry_loop_along) auto
  moreover have "st 0 = w" by (simp add: st_def)
  ultimately show ?thesis unfolding probe by (simp add: st_def)
qed

text \<open>Two probes that fail and succeed at the same invocations, each failure being a
  returned false or a raised error, leave the loop with the same flag, the same attempt
  counter and the same number of invocations, and no error leaves the loop. The loop sleeps
  after the \<open>j\<close>-th invocation exactly when it returned false and attempts remain.\<close>

lemma raised_error_counts_as_failure:
  assumes "\<forall>j. (f j = Resolved True) = (g j = Resolved True)"
    and "retry_loop (scripted f) log_sleep rs False 0 log0 = (b1, n1, l1)"
    and "retry_loop (scripted g) log_sleep rs False 0 log0 = (b2, n2, l2)"
  shows "b1 = b2 \<and> n1 = n2 \<and> invocations l1 = invocations l2 \<and>
     sleeps l1 = replicate (length (filter (\<lambda>j. f j = Resolved False \<and> int j + 1 < maxAttempts rs)
                                      [0..<nat n1])) (backoffDelay rs) \<and>
     sleeps l2 = replicate (length (filter (\<lambda>j. g j = Resolved False \<and> int j + 1 < maxAttempts rs)
                                      [0..<nat n2])) (backoffDelay rs)"
  using scripted_same_outcome[OF assms(1), of rs 0 0 "[]" "[]"]
    scripted_sleeps[of f rs 0 "[]" b1 n1 l1] scripted_sleeps[of g rs 0 "[]" b2 n2 l2]
    assms(2,3)
  by (simp add: log0_def)


section \<open>Chunks and completion order\<close>

lemma chunk_loop_concat:
  "0 < sz \<Longrightarrow> \<exists>cs. chunk_loop xs sz i acc = Some (acc @ cs) \<and> concat cs = drop i xs"
proof (induction "length xs - i" arbitrary: i acc rule: less_induct)
  case less
  show ?case
  proof (cases "i < length xs")
    case True
    then have "length xs - (i + sz) < length xs - i" using less.prems by simp
    from less.hyps[OF this less.prems, of "acc @ [take sz (drop i xs)]"]
    obtain cs where cs: "chunk_loop xs sz (i + sz) (acc @ [take sz (drop i xs)]) =
        Some ((acc @ [take sz (drop i xs)]) @ cs)" "concat cs = drop (i + sz) xs"
      by blast
    have "chunk_loop xs sz i acc = Some (acc @ (take sz (drop i xs) # cs))"
      using True cs(1) by (subst chunk_loop.simps) simp
    moreover have "drop (i + sz) xs = drop sz (drop i xs)"
      by (simp add: add.commute)
    then have "concat (take sz (drop i xs) # cs) = drop i xs"
      using cs(2) by (simp del: drop_drop)
    ultimately show ?thesis by blast
  next
    case False
    then show ?thesis by (subst chunk_loop.simps) simp
  qed
qed

lemma chunk_concat: "0 < sz \<Longrightarrow> \<exists>cs. chunk xs sz = Some cs \<and> concat cs = xs"
  using chunk_loop_concat[of sz xs 0 "[]"] by (simp add: chunk_def)

lemma mset_concat_nth_perm:
  assumes "mset perm = mset [0..<length xss]"
  shows "mset (concat (map (\<lambda>j. xss ! j) perm)) = mset (concat xss)"
proof -
  have "mset (concat (map (\<lambda>j. xss ! j) perm)) = sum_list (map (\<lambda>j. mset (xss ! j)) perm)"
    by (simp add: mset_concat comp_def)
  also have "\<dots> = sum_mset (image_mset (\<lambda>j. mset (xss ! j)) (mset perm))"
    by (metis mset_map sum_mset_sum_list)
  also have "\<dots> = sum_mset (image_mset (\<lambda>j. mset (xss ! j)) (mset [0..<length xss]))"
    by (simp only: assms)
  also have "\<dots> = sum_list (map (\<lambda>j. mset (xss ! j)) [0..<length xss])"
    by (metis mset_map sum_mset_sum_list)
  also have "\<dots> = sum_list (map mset (map (\<lambda>j. xss ! j) [0..<length xss]))"
    by (simp add: comp_def)
  also have "\<dots> = mset (concat xss)"
    by (simp only: map_nth mset_concat)
  finally show ?thesis .
qed


lemma length_split_str: "length (split_str sep s) = Suc (length (filter sep s))"
  by (induction s) (auto split: list.splits)

lemma domainOf_Some: "CHR ''@'' \<in> set a \<Longrightarrow> \<exists>d. domainOf a = Some d"
proof -
  assume "CHR ''@'' \<in> set a"
  then have "filter (\<lambda>c. c = CHR ''@'') a \<noteq> []" by (auto simp: filter_empty_conv)
  then have "2 \<le> length (split_str (\<lambda>c. c = CHR ''@'') a)"
    by (cases "filter (\<lambda>c. c = CHR ''@'') a") (simp_all add: length_split_str)
  then show ?thesis
    by (cases "split_str (\<lambda>c. c = CHR ''@'') a" rule: list.exhaust[case_names Nil Cons])
       (auto simp: domainOf_def split: list.splits)
qed

lemma pipeline_rejects:
  "fst (validateEmailWithRetry isEmail isFQDN e a options w) = Inl err \<Longrightarrow>
     isEmail a \<and> domainOf a = None \<and> err = TypeError"
  by (auto simp: validateEmailWithRetry_def Let_def split: if_splits option.splits prod.splits)

lemma pipeline_returns:
  assumes "isEmail a \<longrightarrow> CHR ''@'' \<in> set a"
  shows "\<exists>r. fst (validateEmailWithRetry isEmail isFQDN e a options w) = Inr r \<and> email r = a"
proof (cases "fst (validateEmailWithRetry isEmail isFQDN e a options w)")
  case (Inl err)
  from pipeline_rejects[OF Inl] assms domainOf_Some[of a] show ?thesis by auto
next
  case (Inr r)
  with email_field[OF Inr] show ?thesis by simp
qed

lemma map_enumerate_id:
  "(\<And>i x. x \<in> set xs \<Longrightarrow> g (i, x) = x) \<Longrightarrow> map g (enumerate n xs) = xs"
  by (induction xs arbitrary: n) simp_all

lemma settled_elem:
  "x \<in> set (concat (map (map fst)
       (map (\<lambda>(j, c). map (\<lambda>(p, addr). F j p addr) (enumerate 0 c)) (enumerate 0 chunks)))) \<Longrightarrow>
   \<exists>j p a. a \<in> set (concat chunks) \<and> x = fst (F j p a)"
  by (auto simp: in_set_enumerate_eq) (metis nth_mem)

lemma settled_chunks:
  assumes "\<And>j p a. a \<in> set (concat chunks) \<Longrightarrow> h (fst (F j p a)) = a"
  shows "map (map h) (map (map fst)
       (map (\<lambda>(j, c). map (\<lambda>(p, addr). F j p addr) (enumerate 0 c)) (enumerate 0 chunks))) =
     chunks"
proof -
  have inner: "map (\<lambda>(p, addr). h (fst (F j p addr))) (enumerate 0 c) = c"
    if "c \<in> set chunks" for j c
    using that assms by (intro map_enumerate_id) auto
  have "map (map h) (map (map fst)
       (map (\<lambda>(j, c). map (\<lambda>(p, addr). F j p addr) (enumerate 0 c)) (enumerate 0 chunks))) =
     map (\<lambda>(j, c). map (\<lambda>(p, addr). h (fst (F j p addr))) (enumerate 0 c)) (enumerate 0 chunks)"
    by (simp add: comp_def case_prod_unfold)
  also have "\<dots> = chunks"
    using inner by (intro map_enumerate_id) auto
  finally show ?thesis .
qed

lemma CHUNK_SIZE_pos: "0 < CHUNK_SIZE" by (simp add: CHUNK_SIZE_def)

lemma batch_unfold:
  assumes "chunk emails CHUNK_SIZE = Some chunks"
  shows "validateEmailBatch isEmail isFQDN envs finished emails options =
     (let runs =
            map (\<lambda>(j, c).
                   map (\<lambda>(p, addr).
                          validateEmailWithRetry isEmail isFQDN (envs j p) addr options world0)
                     (enumerate 0 c))
              (enumerate 0 chunks);
          worlds = concat (map (map snd) runs);
          settled = map (map fst) runs
      in (case filter isl (concat settled) of
            rejection # others \<Rightarrow> Some (Inl (projl rejection), worlds)
          | [] \<Rightarrow>
              (let chunkResults = map (map projr) settled;
                   results =
                     concat (map (\<lambda>j. chunkResults ! j)
                               (sort_key finished [0..<length chunks]))
               in if length results = 0
                  then Some (Inl (Error ''No results generated from validation''), worlds)
                  else Some (Inr results, worlds))))"
  by (simp add: validateEmailBatch_def assms)

lemma batch_results_origin:
  assumes "validateEmailBatch isEmail isFQDN envs finished emails options = Some (Inr rs, ws)"
    and "r \<in> set rs"
  shows "\<exists>j p a. a \<in> set emails \<and>
           fst (validateEmailWithRetry isEmail isFQDN (envs j p) a options world0) = Inr r"
proof -
  obtain chunks where ch: "chunk emails CHUNK_SIZE = Some chunks" and cc: "concat chunks = emails"
    using chunk_concat[OF CHUNK_SIZE_pos] by blast
  define settled where "settled = map (map fst)
     (map (\<lambda>(j, c). map (\<lambda>(p, addr).
         validateEmailWithRetry isEmail isFQDN (envs j p) addr options world0) (enumerate 0 c))
       (enumerate 0 chunks))"
  define chunkResults where "chunkResults = map (map projr) settled"
  have len: "length chunkResults = length chunks" by (simp add: chunkResults_def settled_def)
  from assms(1) have
    rej: "filter isl (concat settled) = []"
    and rs: "rs = concat (map (\<lambda>j. chunkResults ! j) (sort_key finished [0..<length chunks]))"
    unfolding batch_unfold[OF ch] Let_def settled_def[symmetric] chunkResults_def[symmetric]
    by (auto split: list.splits if_splits)
  from assms(2) rs obtain j where "j < length chunks" "r \<in> set (chunkResults ! j)" by auto
  then have "r \<in> set (concat chunkResults)" using len by (auto intro: nth_mem)
  then obtain x where x: "x \<in> set (concat settled)" "r = projr x"
    by (auto simp: chunkResults_def)
  from rej x(1) have "\<not> isl x" by (auto simp: filter_empty_conv)
  then have "x = Inr r" using x(2) by (cases x) auto
  moreover from settled_elem[OF x(1)[unfolded settled_def]] obtain j p a
    where "a \<in> set (concat chunks)"
      and "x = fst (validateEmailWithRetry isEmail isFQDN (envs j p) a options world0)"
    by blast
  ultimately show ?thesis using cc by metis
qed

lemma worlds_elem:
  "x \<in> set (concat (map (map snd)
       (map (\<lambda>(j, c). map (\<lambda>(p, addr). F j p addr) (enumerate 0 c)) (enumerate 0 chunks)))) \<Longrightarrow>
   \<exists>j p a. a \<in> set (concat chunks) \<and> x = snd (F j p a)"
  by (auto simp: in_set_enumerate_eq) (metis nth_mem)

lemma batch_worlds_origin:
  assumes "validateEmailBatch isEmail isFQDN envs finished emails options = Some (res, ws)"
    and "w' \<in> set ws"
  shows "\<exists>j p a. a \<in> set emails \<and>
           w' = snd (validateEmailWithRetry isEmail isFQDN (envs j p) a options world0)"
proof -
  obtain chunks where ch: "chunk emails CHUNK_SIZE = Some chunks" and cc: "concat chunks = emails"
    using chunk_concat[OF CHUNK_SIZE_pos] by blast
  define worlds where "worlds = concat (map (map snd)
     (map (\<lambda>(j, c). map (\<lambda>(p, addr).
         validateEmailWithRetry isEmail isFQDN (envs j p) addr options world0) (enumerate 0 c))
       (enumerate 0 chunks)))"
  from assms(1) have "ws = worlds"
    unfolding batch_unfold[OF ch] Let_def worlds_def[symmetric]
    by (auto split: list.splits if_splits)
  with assms(2) have "w' \<in> set worlds" by simp
  from worlds_elem[OF this[unfolded worlds_def]] cc show ?thesis by metis
qed

lemma batch_returns:
  assumes "emails \<noteq> []" and "\<forall>a\<in>set emails. isEmail a \<longrightarrow> CHR ''@'' \<in> set a"
  shows "\<exists>rs ws chunks.
           chunk emails CHUNK_SIZE = Some chunks \<and> concat chunks = emails \<and>
           validateEmailBatch isEmail isFQDN envs finished emails options = Some (Inr rs, ws) \<and>
           map email rs = concat (map (\<lambda>j. chunks ! j) (sort_key finished [0..<length chunks]))"
proof -
  obtain chunks where ch: "chunk emails CHUNK_SIZE = Some chunks" and cc: "concat chunks = emails"
    using chunk_concat[OF CHUNK_SIZE_pos] by blast
  define settled where "settled = map (map fst)
     (map (\<lambda>(j, c). map (\<lambda>(p, addr).
         validateEmailWithRetry isEmail isFQDN (envs j p) addr options world0) (enumerate 0 c))
       (enumerate 0 chunks))"
  define chunkResults where "chunkResults = map (map projr) settled"
  define perm where "perm = sort_key finished [0..<length chunks]"
  define results where "results = concat (map (\<lambda>j. chunkResults ! j) perm)"
  have len: "length chunkResults = length chunks" by (simp add: chunkResults_def settled_def)
  have good: "\<exists>r. fst (validateEmailWithRetry isEmail isFQDN (envs j p) a options world0) = Inr r \<and>
                  email r = a" if "a \<in> set (concat chunks)" for j p a
    using that assms(2) cc by (intro pipeline_returns) auto
  have norej: "filter isl (concat settled) = []"
  proof -
    have "\<not> isl x" if "x \<in> set (concat settled)" for x
    proof -
      from settled_elem[OF that[unfolded settled_def]] obtain j p a
        where a: "a \<in> set (concat chunks)"
          and x: "x = fst (validateEmailWithRetry isEmail isFQDN (envs j p) a options world0)"
        by blast
      from good[OF a, of j p] x show ?thesis by auto
    qed
    then show ?thesis by (auto simp: filter_empty_conv)
  qed
  have "map (map (email \<circ> projr)) settled = chunks"
    unfolding settled_def
  proof (rule settled_chunks)
    fix j p a assume "a \<in> set (concat chunks)"
    from good[OF this, of j p]
    show "(email \<circ> projr) (fst (validateEmailWithRetry isEmail isFQDN (envs j p) a options world0)) = a"
      by auto
  qed
  then have chunks: "map (map email) chunkResults = chunks"
    by (simp add: chunkResults_def comp_def)
  have "map email (chunkResults ! j) = chunks ! j" if "j \<in> set perm" for j
  proof -
    from that have "j < length chunkResults" by (simp add: perm_def len)
    then have "map email (chunkResults ! j) = map (map email) chunkResults ! j" by simp
    then show ?thesis by (simp only: chunks)
  qed
  then have order: "map email results = concat (map (\<lambda>j. chunks ! j) perm)"
    by (simp add: results_def map_concat comp_def cong: map_cong)
  have "mset (map email results) = mset emails"
    unfolding order using mset_concat_nth_perm[of perm chunks] by (simp add: perm_def cc)
  then have "length results = length emails" by (metis length_map size_mset)
  then have ne: "length results \<noteq> 0" using assms(1) by simp
  have "\<exists>ws. validateEmailBatch isEmail isFQDN envs finished emails options = Some (Inr results, ws)"
    unfolding batch_unfold[OF ch] Let_def settled_def[symmetric] chunkResults_def[symmetric]
      perm_def[symmetric] results_def[symmetric]
    using norej ne by simp
  with ch cc order show ?thesis unfolding perm_def by blast
qed

lemma batch_options_only_strategy:
  assumes "maxAttempts (retryStrategy o1) = maxAttempts (retryStrategy o2)"
    and "backoffDelay (retryStrategy o1) = backoffDelay (retryStrategy o2)"
  shows "validateEmailBatch isEmail isFQDN envs finished emails o1 =
         validateEmailBatch isEmail isFQDN envs finished emails o2"
  unfolding validateEmailBatch_def options_only_strategy[OF assms]
  by (rule refl)

section \<open>The parser\<close>

lemma MAX_EMAILS_pos: "0 < MAX_EMAILS" by (simp add: MAX_EMAILS_def)

lemma parse_tokens:
  "take MAX_EMAILS
     (map (\<lambda>e. filter (\<lambda>c. \<not> isQuote c) e)
        (filter (\<lambda>e. e \<noteq> [] \<and> includes_char e CHR ''@'')
           (map (\<lambda>e. trim e) (split_str (\<lambda>c. c = CHR 0x0A \<or> c = CHR '','') text)))) =
   take MAX_EMAILS (spec_tokens text)"
proof -
  have "(\<lambda>c. c = CHR 0x0A \<or> c = CHR '','') = (\<lambda>c. c \<in> {CHR 0x0A, CHR '',''})" by auto
  moreover have "(\<lambda>e. filter (\<lambda>c. \<not> isQuote c) e) = spec_strip"
    by (auto simp: spec_strip_def isQuote_def fun_eq_iff intro: filter_cong)
  ultimately show ?thesis
    by (simp add: spec_tokens_def spec_split_def spec_discard_def includes_char_def conj_commute)
qed

lemma parseEmailFile_eq:
  "parseEmailFile file =
     (if spec_tokens (file_text file) = [] then Inl (Error ''No valid emails found in file'')
      else Inr (take MAX_EMAILS (spec_tokens (file_text file))))"
  using MAX_EMAILS_pos
  by (auto simp: parseEmailFile_def parse_tokens Let_def)

lemma chunk_two:
  assumes "length xs = sz" and "0 < length ys" and "length ys \<le> sz"
  shows "chunk (xs @ ys) sz = Some [xs, ys]"
proof -
  have 1: "chunk_loop (xs @ ys) sz 0 [] = chunk_loop (xs @ ys) sz sz [xs]"
    using assms by (subst chunk_loop.simps) simp
  have 2: "chunk_loop (xs @ ys) sz sz [xs] = chunk_loop (xs @ ys) sz (sz + sz) [xs, ys]"
    using assms by (subst chunk_loop.simps) simp
  have 3: "chunk_loop (xs @ ys) sz (sz + sz) [xs, ys] = Some [xs, ys]"
    using assms by (subst chunk_loop.simps) simp
  show ?thesis by (simp add: chunk_def 1 2 3)
qed

section \<open>The claims about the batch, the parser and the options\<close>

text \<open>
  C6. For a non-empty list of addresses the batch returns one result per address: as many
  results as addresses, and the \<open>email\<close> fields of the results are, as a multiset, the
  addresses. Their order is the order of completion of the chunks: the addresses of the
  chunk that finished first, in input order, then those of the next. The second hypothesis
  is what keeps \<^verbatim>\<open>validator.isFQDN\<close> from being handed \<^verbatim>\<open>undefined\<close>: an address the format
  check accepts has an at sign. \<^verbatim>\<open>validator.isEmail\<close> accepts no other address, and
  \<^verbatim>\<open>parseEmailFile\<close> returns no other token.
\<close>

theorem batch_one_result_per_email:
  assumes "emails \<noteq> []" and "\<forall>a\<in>set emails. isEmail a \<longrightarrow> CHR ''@'' \<in> set a"
  shows "\<exists>rs ws chunks.
           validateEmailBatch isEmail isFQDN envs finished emails options = Some (Inr rs, ws) \<and>
           length rs = length emails \<and>
           mset (map email rs) = mset emails \<and>
           chunk emails CHUNK_SIZE = Some chunks \<and>
           map email rs = concat (map (\<lambda>j. chunks ! j) (sort_key finished [0..<length chunks]))"
proof -
  from batch_returns[OF assms, of isFQDN envs finished options]
  obtain rs ws chunks where ch: "chunk emails CHUNK_SIZE = Some chunks"
    and cc: "concat chunks = emails"
    and b: "validateEmailBatch isEmail isFQDN envs finished emails options = Some (Inr rs, ws)"
    and order: "map email rs = concat (map (\<lambda>j. chunks ! j) (sort_key finished [0..<length chunks]))"
    by blast
  have "mset (map email rs) = mset (concat chunks)"
    unfolding order by (rule mset_concat_nth_perm) simp
  then have ms: "mset (map email rs) = mset emails" by (simp only: cc)
  then have "length rs = length emails" by (metis length_map size_mset)
  with ms ch b order show ?thesis by blast
qed

theorem batch_one_result_per_email_witness:
  "\<exists>rs ws chunks.
      validateEmailBatch (\<lambda>s. CHR ''@'' \<in> set s) (\<lambda>s. True)
        (\<lambda>j p. \<lparr>random = (\<lambda>n. 1), now = ''t''\<rparr>) (\<lambda>j. 0)
        [''a@gmail.com'', ''not-an-email'', ''b@microsoft.com''] DEFAULT_OPTIONS = Some (Inr rs, ws) \<and>
      length rs = 3 \<and>
      mset (map email rs) = mset [''a@gmail.com'', ''not-an-email'', ''b@microsoft.com''] \<and>
      chunk [''a@gmail.com'', ''not-an-email'', ''b@microsoft.com''] CHUNK_SIZE = Some chunks \<and>
      map email rs = concat (map (\<lambda>j. chunks ! j) (sort_key (\<lambda>j. 0 :: nat) [0..<length chunks]))"
  using batch_one_result_per_email[of "[''a@gmail.com'', ''not-an-email'', ''b@microsoft.com'']"
      "\<lambda>s. CHR ''@'' \<in> set s" "\<lambda>s. True" "\<lambda>j p. \<lparr>random = (\<lambda>n. 1), now = ''t''\<rparr>" "\<lambda>j. 0"
      DEFAULT_OPTIONS]
  by (simp add: numeral_3_eq_3)

text \<open>The order of the results can differ from the input order: of two chunks, when the
  second finishes first, its results come first.\<close>

lemma batch_second_chunk_first:
  assumes "length xs = CHUNK_SIZE" and "0 < length ys" and "length ys \<le> CHUNK_SIZE"
    and "\<forall>a\<in>set (xs @ ys). isEmail a \<longrightarrow> CHR ''@'' \<in> set a"
    and "finished 1 < finished 0"
  shows "\<exists>rs ws. validateEmailBatch isEmail isFQDN envs finished (xs @ ys) options =
                   Some (Inr rs, ws) \<and> map email rs = ys @ xs"
proof -
  have ne: "xs @ ys \<noteq> []" using assms(2) by auto
  from batch_returns[OF ne assms(4), of isFQDN envs finished options]
  obtain rs ws chunks where ch: "chunk (xs @ ys) CHUNK_SIZE = Some chunks"
    and b: "validateEmailBatch isEmail isFQDN envs finished (xs @ ys) options = Some (Inr rs, ws)"
    and order: "map email rs = concat (map (\<lambda>j. chunks ! j) (sort_key finished [0..<length chunks]))"
    by blast
  from ch chunk_two[OF assms(1-3)] have chunks: "chunks = [xs, ys]" by simp
  have "[0..<length chunks] = [0, 1]" by (simp add: chunks upt_rec)
  then have "sort_key finished [0..<length chunks] = [1, 0]" using assms(5) by simp
  with order chunks have "map email rs = ys @ xs" by simp
  with b show ?thesis by blast
qed

text \<open>
  C7, as amended. When at least one token is left after splitting the text on newline or
  comma, trimming, discarding the empty tokens and those without an at sign, and stripping
  the quotes, \<^verbatim>\<open>parseEmailFile\<close> returns the first \<open>min n 40000\<close> of the \<open>n\<close> tokens, in order
  and with their duplicates, and raises no error for the tokens it drops.
\<close>

theorem parse_returns_tokens:
  assumes "spec_tokens (file_text file) \<noteq> []"
  shows "parseEmailFile file = Inr (take 40000 (spec_tokens (file_text file))) \<and>
         length (take 40000 (spec_tokens (file_text file))) =
           min (length (spec_tokens (file_text file))) 40000"
  using assms by (simp add: parseEmailFile_eq MAX_EMAILS_def)

theorem parse_returns_tokens_witness:
  "parseEmailFile \<lparr>file_size = 11, file_type = ''text/csv'', file_text = ''a@b.c,a@b.c''\<rparr> =
     Inr [''a@b.c'', ''a@b.c'']"
proof -
  have t: "spec_tokens ''a@b.c,a@b.c'' = [''a@b.c'', ''a@b.c'']" by code_simp
  from parse_returns_tokens[of "\<lparr>file_size = 11, file_type = ''text/csv'', file_text = ''a@b.c,a@b.c''\<rparr>"]
  show ?thesis by (simp add: t)
qed

text \<open>C7 as stated fails on the empty text: it has no token, and \<^verbatim>\<open>parseEmailFile\<close> raises
  an error instead of returning the empty list of its first 0 tokens.\<close>

theorem parse_empty_text_counterexample:
  "spec_tokens '''' = [] \<and>
   parseEmailFile \<lparr>file_size = 0, file_type = ''text/csv'', file_text = ''''\<rparr> =
     Inl (Error ''No valid emails found in file'') \<and>
   parseEmailFile \<lparr>file_size = 0, file_type = ''text/csv'', file_text = ''''\<rparr> \<noteq>
     Inr (take 40000 (spec_tokens ''''))"
proof -
  have t: "spec_tokens '''' = []" by code_simp
  show ?thesis by (simp add: parseEmailFile_eq t)
qed

text \<open>
  C8. \<^verbatim>\<open>parseEmailFile\<close> raises the error \<^verbatim>\<open>No valid emails found in file\<close> exactly when no
  token is left, and returns the tokens otherwise. In \<^verbatim>\<open>onDrop\<close> the error is raised before
  the batch is started: the state ends with that error and no result, and no pipeline
  has run.
\<close>

theorem parse_raises_iff_empty:
  "(parseEmailFile file = Inl (Error ''No valid emails found in file'')) =
     (spec_tokens (file_text file) = []) \<and>
   (spec_tokens (file_text file) \<noteq> [] \<longrightarrow>
      parseEmailFile file = Inr (take MAX_EMAILS (spec_tokens (file_text file)))) \<and>
   (validateFileSize file \<and> validateFileType file \<and> spec_tokens (file_text file) = [] \<longrightarrow>
      onDrop isEmail isFQDN envs finished file st =
        Some (\<lparr>error = Some (Error ''No valid emails found in file''), results = []\<rparr>, []))"
  by (simp add: parseEmailFile_eq onDrop_def)

theorem parse_raises_iff_empty_witness:
  "parseEmailFile \<lparr>file_size = 8, file_type = ''text/plain'', file_text = ''foo, bar''\<rparr> =
     Inl (Error ''No valid emails found in file'') \<and>
   onDrop (\<lambda>s. True) (\<lambda>s. True) (\<lambda>j p. \<lparr>random = (\<lambda>n. 1), now = ''t''\<rparr>) (\<lambda>j. 0)
     \<lparr>file_size = 8, file_type = ''text/plain'', file_text = ''foo, bar''\<rparr>
     \<lparr>error = None, results = []\<rparr> =
     Some (\<lparr>error = Some (Error ''No valid emails found in file''), results = []\<rparr>, []) \<and>
   parseEmailFile \<lparr>file_size = 5, file_type = ''text/plain'', file_text = ''a@b.c''\<rparr> =
     Inr [''a@b.c'']"
proof -
  let ?f = "\<lparr>file_size = 8, file_type = ''text/plain'', file_text = ''foo, bar''\<rparr>"
  let ?g = "\<lparr>file_size = 5, file_type = ''text/plain'', file_text = ''a@b.c''\<rparr>"
  have t: "spec_tokens ''foo, bar'' = []" by code_simp
  have u: "spec_tokens ''a@b.c'' = [''a@b.c'']" by code_simp
  have s: "validateFileSize ?f" by (simp add: validateFileSize_def MAX_FILE_SIZE_def)
  have ty: "validateFileType ?f" by (simp add: validateFileType_def)
  from parse_raises_iff_empty[of ?f "\<lambda>s. True" "\<lambda>s. True" "\<lambda>j p. \<lparr>random = (\<lambda>n. 1), now = ''t''\<rparr>"
      "\<lambda>j. 0" "\<lparr>error = None, results = []\<rparr>"]
    parse_raises_iff_empty[of ?g "\<lambda>s. True" "\<lambda>s. True" "\<lambda>j p. \<lparr>random = (\<lambda>n. 1), now = ''t''\<rparr>"
      "\<lambda>j. 0" "\<lparr>error = None, results = []\<rparr>"]
  show ?thesis by (simp add: t u s ty MAX_EMAILS_def)
qed

text \<open>
  C9. The pipeline never invokes \<^verbatim>\<open>detectSpamTrapPattern\<close>: the count of its invocations is
  the same after a pipeline as before it, whatever the address and the options are, and it
  is 0 in the final world of every pipeline of a batch. In every result of the pipeline
  and of the batch the flags \<open>spamTrap\<close>, \<open>disposable\<close> and \<open>blacklisted\<close> are false.
\<close>

theorem reputation_flags_never_set:
  "spamtrap_calls (snd (validateEmailWithRetry isEmail isFQDN e addr options w)) =
     spamtrap_calls w \<and>
   (fst (validateEmailWithRetry isEmail isFQDN e addr options w) = Inr r \<longrightarrow>
      \<not> spamTrap (details r) \<and> \<not> disposable (details r) \<and> \<not> blacklisted (details r)) \<and>
   (validateEmailBatch isEmail isFQDN envs finished emails options = Some (res, ws) \<longrightarrow>
      (\<forall>w'\<in>set ws. spamtrap_calls w' = 0)) \<and>
   (validateEmailBatch isEmail isFQDN envs finished emails options = Some (Inr rs, ws) \<longrightarrow>
      (\<forall>r'\<in>set rs. \<not> spamTrap (details r') \<and> \<not> disposable (details r') \<and>
                      \<not> blacklisted (details r')))"
proof (intro conjI impI ballI)
  show "spamtrap_calls (snd (validateEmailWithRetry isEmail isFQDN e addr options w)) =
      spamtrap_calls w"
    by (rule pipeline_spamtrap_calls)
next
  assume "fst (validateEmailWithRetry isEmail isFQDN e addr options w) = Inr r"
  from flags_false[OF this]
  show "\<not> spamTrap (details r)" "\<not> disposable (details r)" "\<not> blacklisted (details r)" by auto
next
  fix w' assume b: "validateEmailBatch isEmail isFQDN envs finished emails options = Some (res, ws)"
    and w: "w' \<in> set ws"
  from batch_worlds_origin[OF b w] obtain j p a
    where "w' = snd (validateEmailWithRetry isEmail isFQDN (envs j p) a options world0)"
    by blast
  then show "spamtrap_calls w' = 0"
    by (simp add: pipeline_spamtrap_calls world0_def)
next
  fix r' assume b: "validateEmailBatch isEmail isFQDN envs finished emails options = Some (Inr rs, ws)"
    and r: "r' \<in> set rs"
  from batch_results_origin[OF b r] obtain j p a
    where "fst (validateEmailWithRetry isEmail isFQDN (envs j p) a options world0) = Inr r'"
    by blast
  from flags_false[OF this]
  show "\<not> spamTrap (details r')" "\<not> disposable (details r')" "\<not> blacklisted (details r')" by auto
qed

text \<open>The witness is an address the detector matches, and on which an invocation of the
  detector would be counted: its pipeline leaves the count at 0 and its result is Valid
  with \<open>spamTrap\<close> false, alone and in a batch.\<close>

theorem reputation_flags_never_set_witness:
  "detectSpamTrapPattern ''spam@gmail.com'' world0 = (True, world0\<lparr>spamtrap_calls := 1\<rparr>) \<and>
   validateEmailWithRetry (\<lambda>s. CHR ''@'' \<in> set s) (\<lambda>s. True)
        \<lparr>random = (\<lambda>n. 1), now = ''t''\<rparr> ''spam@gmail.com'' DEFAULT_OPTIONS world0 =
     (Inr \<lparr>email = ''spam@gmail.com'', status = Valid, confidence = High, reason = None,
        timestamp = ''t'', retryAfter = None,
        details = \<lparr>format = True, domain = True, disposable = False, mxRecords = True,
          smtp = True, spamTrap = False, corporate = False, blacklisted = False, retryCount = 0,
          verificationSteps = [''Format check passed'', ''Domain format valid'',
            ''MX records verified'', ''SMTP verification passed'']\<rparr>\<rparr>,
      \<lparr>random_calls = 1, mx_calls = 1, smtp_calls = 1, spamtrap_calls = 0, timeouts = []\<rparr>) \<and>
   spamtrap_calls (snd (validateEmailWithRetry (\<lambda>s. CHR ''@'' \<in> set s) (\<lambda>s. True)
        \<lparr>random = (\<lambda>n. 1), now = ''t''\<rparr> ''spam@gmail.com'' DEFAULT_OPTIONS world0)) = 0 \<and>
   spamtrap_calls (hd (snd (the (validateEmailBatch (\<lambda>s. CHR ''@'' \<in> set s) (\<lambda>s. True)
        (\<lambda>j p. \<lparr>random = (\<lambda>n. 1), now = ''t''\<rparr>) (\<lambda>j. 0) [''spam@gmail.com'']
        DEFAULT_OPTIONS)))) = 0"
proof -
  let ?R = "\<lparr>email = ''spam@gmail.com'', status = Valid, confidence = High, reason = None,
      timestamp = ''t'', retryAfter = None,
      details = \<lparr>format = True, domain = True, disposable = False, mxRecords = True,
        smtp = True, spamTrap = False, corporate = False, blacklisted = False, retryCount = 0,
        verificationSteps = [''Format check passed'', ''Domain format valid'',
          ''MX records verified'', ''SMTP verification passed'']\<rparr>\<rparr>"
  let ?w = "\<lparr>random_calls = 1, mx_calls = 1, smtp_calls = 1, spamtrap_calls = 0, timeouts = []\<rparr>"
  have d: "detectSpamTrapPattern ''spam@gmail.com'' world0 = (True, world0\<lparr>spamtrap_calls := 1\<rparr>)"
    by code_simp
  have one: "validateEmailWithRetry (\<lambda>s. CHR ''@'' \<in> set s) (\<lambda>s. True)
        \<lparr>random = (\<lambda>n. 1), now = ''t''\<rparr> ''spam@gmail.com'' DEFAULT_OPTIONS world0 = (Inr ?R, ?w)"
    by code_simp
  have batch: "validateEmailBatch (\<lambda>s. CHR ''@'' \<in> set s) (\<lambda>s. True)
        (\<lambda>j p. \<lparr>random = (\<lambda>n. 1), now = ''t''\<rparr>) (\<lambda>j. 0) [''spam@gmail.com''] DEFAULT_OPTIONS =
      Some (Inr [?R], [?w])"
    by code_simp
  from reputation_flags_never_set[of "\<lambda>s. CHR ''@'' \<in> set s" "\<lambda>s. True"
      "\<lparr>random = (\<lambda>n. 1), now = ''t''\<rparr>" "''spam@gmail.com''" DEFAULT_OPTIONS world0 ?R
      "\<lambda>j p. \<lparr>random = (\<lambda>n. 1), now = ''t''\<rparr>" "\<lambda>j. 0" "[''spam@gmail.com'']" "Inr [?R]" "[?w]"
      "[?R]"]
    one batch d
  show ?thesis by (simp add: world0_def)
qed

text \<open>
  C10. Two option values with the same \<open>maxAttempts\<close> and the same \<open>backoffDelay\<close> give the
  same result and the same effects, for one address and for a batch, in the same
  environment (the same values of \<^verbatim>\<open>Math.random()\<close> and the same clock): \<open>enableRetries\<close>,
  \<open>validateSMTP\<close>, \<open>strictMode\<close> and \<open>timeout\<close> are not read.
\<close>

theorem options_only_through_retry_strategy:
  assumes "maxAttempts (retryStrategy o1) = maxAttempts (retryStrategy o2)"
    and "backoffDelay (retryStrategy o1) = backoffDelay (retryStrategy o2)"
  shows "validateEmailWithRetry isEmail isFQDN e addr o1 w =
           validateEmailWithRetry isEmail isFQDN e addr o2 w \<and>
         validateEmailBatch isEmail isFQDN envs finished emails o1 =
           validateEmailBatch isEmail isFQDN envs finished emails o2"
  using options_only_strategy[OF assms] batch_options_only_strategy[OF assms] by simp

theorem options_only_through_retry_strategy_witness:
  "validateEmailWithRetry (\<lambda>s. CHR ''@'' \<in> set s) (\<lambda>s. True) \<lparr>random = (\<lambda>n. 0), now = ''t''\<rparr>
      ''a@example.org'' DEFAULT_OPTIONS world0 =
   validateEmailWithRetry (\<lambda>s. CHR ''@'' \<in> set s) (\<lambda>s. True) \<lparr>random = (\<lambda>n. 0), now = ''t''\<rparr>
      ''a@example.org''
      \<lparr>enableRetries = False,
        retryStrategy = \<lparr>maxAttempts = 3, backoffDelay = 2000, timeout = 1\<rparr>,
        validateSMTP = False, strictMode = True\<rparr> world0 \<and>
   validateEmailBatch (\<lambda>s. CHR ''@'' \<in> set s) (\<lambda>s. True)
      (\<lambda>j p. \<lparr>random = (\<lambda>n. 0), now = ''t''\<rparr>) (\<lambda>j. 0) [''a@example.org''] DEFAULT_OPTIONS =
   validateEmailBatch (\<lambda>s. CHR ''@'' \<in> set s) (\<lambda>s. True)
      (\<lambda>j p. \<lparr>random = (\<lambda>n. 0), now = ''t''\<rparr>) (\<lambda>j. 0) [''a@example.org'']
      \<lparr>enableRetries = False,
        retryStrategy = \<lparr>maxAttempts = 3, backoffDelay = 2000, timeout = 1\<rparr>,
        validateSMTP = False, strictMode = True\<rparr>"
  by (rule options_only_through_retry_strategy)
     (simp_all add: DEFAULT_OPTIONS_def DEFAULT_RETRY_STRATEGY_def)

end
